theory Spec2Isabelle
  imports Complex_Main
begin

section \<open>Constants and the interval catalog\<close>

text \<open>
  The program is one script, \<^verbatim>\<open>script.js\<close>: an ear-training quiz that plays two notes and
  asks which interval they form. Pitches are integral JavaScript numbers, modelled as
  \<open>int\<close>; audio times are JavaScript doubles holding seconds, modelled as \<open>real\<close> (the
  rounding of double arithmetic is not modelled).
\<close>

definition pitchFromPcOct :: "int \<Rightarrow> int \<Rightarrow> int" where
  "pitchFromPcOct pc oct = oct * 12 + pc"

definition MIN_PITCH :: int where
  "MIN_PITCH = pitchFromPcOct 0 3"

definition MAX_PITCH :: int where
  "MAX_PITCH = pitchFromPcOct 0 5"

definition NOTE_PLAY_SEC :: real where
  "NOTE_PLAY_SEC = 115 / 100"

definition GAP_SEC :: real where
  "GAP_SEC = 18 / 100"

definition ROUND_START_DELAY_SEC :: real where
  "ROUND_START_DELAY_SEC = 25 / 100"

definition AUDIO_DIR :: string where
  "AUDIO_DIR = ''audio''"

definition SND_CORRECT :: string where
  "SND_CORRECT = ''correct1.mp3''"

definition SND_INCORRECT :: string where
  "SND_INCORRECT = ''incorrect1.mp3''"

record interval =
  code :: string
  name :: string
  semitones :: int

definition mk_interval :: "string \<Rightarrow> string \<Rightarrow> int \<Rightarrow> interval" where
  "mk_interval c n d = \<lparr>code = c, name = n, semitones = d\<rparr>"

definition IVL_ALL :: "interval list" where
  "IVL_ALL =
    [mk_interval ''m2'' ''minor second'' 1,
     mk_interval ''M2'' ''major second'' 2,
     mk_interval ''m3'' ''minor third'' 3,
     mk_interval ''M3'' ''major third'' 4,
     mk_interval ''P4'' ''perfect fourth'' 5,
     mk_interval ''A4/d5'' ''tritone'' 6,
     mk_interval ''P5'' ''perfect fifth'' 7,
     mk_interval ''m6'' ''minor sixth'' 8,
     mk_interval ''M6'' ''major sixth'' 9,
     mk_interval ''m7'' ''minor seventh'' 10,
     mk_interval ''M7'' ''major seventh'' 11,
     mk_interval ''P8'' ''perfect octave'' 12]"

definition PC_NAMES_SHARP :: "string list" where
  "PC_NAMES_SHARP =
    [''C'', ''C#'', ''D'', ''D#'', ''E'', ''F'', ''F#'', ''G'', ''G#'', ''A'', ''A#'', ''B'']"

definition PC_NAMES_FLAT :: "string list" where
  "PC_NAMES_FLAT =
    [''C'', ''Db'', ''D'', ''Eb'', ''E'', ''F'', ''Gb'', ''G'', ''Ab'', ''A'', ''Bb'', ''B'']"

definition PC_TO_STEM :: "string list" where
  "PC_TO_STEM =
    [''c'', ''csharp'', ''d'', ''dsharp'', ''e'', ''f'', ''fsharp'', ''g'', ''gsharp'', ''a'',
     ''asharp'', ''b'']"

section \<open>JavaScript values, String() and parseInt\<close>

text \<open>
  \<open>clampInt\<close> is handed whatever \<open>settings.intervalCount\<close> or a select box holds and
  parses \<open>String(v)\<close>. The values modelled are integral numbers (\<open>JNum n\<close>, for
  \<open>\<bar>n\<bar> < 10^21\<close>, where \<open>String\<close> prints plain decimal digits), \<open>NaN\<close>, strings and
  \<open>undefined\<close>. Strings are byte strings, so only the ASCII white space of
  \<open>parseInt\<close> is covered.
\<close>

datatype jsval = JNum int | JNaN | JStr string | JUndefined

datatype error = TypeError

definition digitChar :: "nat \<Rightarrow> char" where
  "digitChar d = ''0123456789'' ! d"

fun digits10 :: "nat \<Rightarrow> string" where
  "digits10 n = (if n < 10 then [digitChar n] else digits10 (n div 10) @ [digitChar (n mod 10)])"

declare digits10.simps [simp del]

definition intString :: "int \<Rightarrow> string" where
  "intString n = (if n < 0 then CHR ''-'' # digits10 (nat (- n)) else digits10 (nat n))"

fun jsString :: "jsval \<Rightarrow> string" where
  "jsString (JNum n) = intString n"
| "jsString JNaN = ''NaN''"
| "jsString (JStr s) = s"
| "jsString JUndefined = ''undefined''"

definition isStrWhiteSpace :: "char \<Rightarrow> bool" where
  "isStrWhiteSpace c \<longleftrightarrow> c \<in> set [CHR 0x09, CHR 0x0A, CHR 0x0B, CHR 0x0C, CHR 0x0D, CHR '' '']"

definition digitVal :: "char \<Rightarrow> nat option" where
  "digitVal c = map_of (zip ''0123456789'' [0, 1, 2, 3, 4, 5, 6, 7, 8, 9]) c"

definition isDigit :: "char \<Rightarrow> bool" where
  "isDigit c \<longleftrightarrow> digitVal c \<noteq> None"

definition digitsValue :: "string \<Rightarrow> nat" where
  "digitsValue z = foldl (\<lambda>a c. 10 * a + the (digitVal c)) 0 z"

text \<open>
  \<open>Number.parseInt(s, 10)\<close>: skip leading white space, read an optional sign, then the
  longest run of decimal digits; \<open>None\<close> stands for \<open>NaN\<close> (no digit).
\<close>

definition parseInt10 :: "string \<Rightarrow> int option" where
  "parseInt10 s =
    (let t = dropWhile isStrWhiteSpace s;
         neg = (t \<noteq> [] \<and> hd t = CHR ''-'');
         u = (if t \<noteq> [] \<and> (hd t = CHR ''-'' \<or> hd t = CHR ''+'') then tl t else t);
         z = takeWhile isDigit u
     in if z = [] then None
        else Some (if neg then - int (digitsValue z) else int (digitsValue z)))"

text \<open>
  A digit string whose value rounds to \<open>Infinity\<close> as a double is not finite:
  the largest double is \<open>2^1024 - 2^971\<close>, and everything from \<open>2^1024 - 2^970\<close> on rounds up.
\<close>

definition isFiniteNumber :: "int \<Rightarrow> bool" where
  "isFiniteNumber n \<longleftrightarrow> \<bar>n\<bar> < 2 ^ 1024 - 2 ^ 970"

definition clampInt :: "jsval \<Rightarrow> int \<Rightarrow> int \<Rightarrow> int" where
  "clampInt v lo hi =
    (case parseInt10 (jsString v) of
       None \<Rightarrow> lo
     | Some n \<Rightarrow> if \<not> isFiniteNumber n then lo else max lo (min hi n))"

section \<open>Pitch arithmetic and labels\<close>

text \<open>JavaScript's \<open>%\<close> truncates: the result has the sign of the dividend.\<close>

definition jsRem :: "int \<Rightarrow> int \<Rightarrow> int" where
  "jsRem a b = sgn a * (\<bar>a\<bar> mod \<bar>b\<bar>)"

definition pcFromPitch :: "int \<Rightarrow> int" where
  "pcFromPitch p = jsRem (jsRem p 12 + 12) 12"

definition octFromPitch :: "int \<Rightarrow> int" where
  "octFromPitch p = p div 12"

definition getStemForPc :: "int \<Rightarrow> string option" where
  "getStemForPc pc =
    (let i = jsRem (pc + 12) 12
     in if 0 \<le> i \<and> i < 12 then Some (PC_TO_STEM ! nat i) else None)"

definition noteUrl :: "string \<Rightarrow> int \<Rightarrow> string" where
  "noteUrl stem octaveNum = AUDIO_DIR @ ''/'' @ stem @ intString octaveNum @ ''.mp3''"

definition pitchLabel :: "int \<Rightarrow> string" where
  "pitchLabel pitch =
    (let pc = pcFromPitch pitch; oct = octFromPitch pitch;
         isAcc = (pc \<in> set [1, 3, 6, 8, 10])
     in if \<not> isAcc then PC_NAMES_SHARP ! nat pc @ intString oct
        else PC_NAMES_SHARP ! nat pc @ intString oct @ '' / '' @ PC_NAMES_FLAT ! nat pc
               @ intString oct)"

section \<open>Settings and question generation\<close>

text \<open>
  \<open>settings.fixedRootPitch\<close> is a JavaScript number: the script stores there what
  \<open>Number.parseInt\<close> returns, an integer or \<open>NaN\<close>. \<open>NaN + d\<close> is \<open>NaN\<close>, and every
  comparison with \<open>NaN\<close> is false. (A digit string too long for a double parses to
  \<open>Infinity\<close>, which the comparisons below treat as they treat any large integer; it is
  not a value of its own here.)
\<close>

datatype jsnum = Finite int | NaN

fun jsAdd :: "jsnum \<Rightarrow> int \<Rightarrow> jsnum" where
  "jsAdd (Finite n) d = Finite (n + d)"
| "jsAdd NaN d = NaN"

fun jsLess :: "jsnum \<Rightarrow> int \<Rightarrow> bool" where
  "jsLess (Finite n) m \<longleftrightarrow> n < m"
| "jsLess NaN m \<longleftrightarrow> False"

fun jsGreater :: "jsnum \<Rightarrow> int \<Rightarrow> bool" where
  "jsGreater (Finite n) m \<longleftrightarrow> n > m"
| "jsGreater NaN m \<longleftrightarrow> False"

text \<open>
  The settings and a question, over the type \<open>'n\<close> of their pitches: \<open>jsnum\<close> for
  \<open>pickQuestion\<close> as the script has it, \<open>int\<close> in the session state below.
\<close>

record 'n settings =
  intervalCount :: jsval
  rootMode :: string
  fixedRootPitch :: 'n

record 'n question =
  rootPitch :: 'n
  highPitch :: 'n
  interval :: interval

definition activeIntervals :: "'n settings \<Rightarrow> interval list" where
  "activeIntervals s =
    (let n = clampInt (intervalCount s) 2 (int (length IVL_ALL)) in take (nat n) IVL_ALL)"

text \<open>
  \<open>Math.random()\<close> is a parameter \<open>r\<close>, a number with \<open>0 \<le> r < 1\<close>. Both bounds of
  \<open>randIntInclusive\<close> are integers at its only call, so \<open>Math.ceil\<close> and \<open>Math.floor\<close>
  leave them as they are.
\<close>

definition randIntInclusive :: "real \<Rightarrow> int \<Rightarrow> int \<Rightarrow> int" where
  "randIntInclusive r lo hi =
    (let a = lo; b = hi in if b < a then a else a + \<lfloor>r * real_of_int (b - a + 1)\<rfloor>)"

text \<open>
  \<open>pickQuestion\<close> returns \<open>null\<close> (\<open>None\<close>) or a question. Reading \<open>.semitones\<close> of an
  index outside the list would throw; \<open>r1\<close> draws the interval, \<open>r2\<close> the random root.
  The four range checks are JavaScript comparisons: none of them holds of \<open>NaN\<close>.
\<close>

definition pickQuestion ::
  "jsnum settings \<Rightarrow> real \<Rightarrow> real \<Rightarrow> error + jsnum question option" where
  "pickQuestion s r1 r2 =
    (let list = activeIntervals s;
         i = \<lfloor>r1 * real (length list)\<rfloor>
     in if i < 0 \<or> int (length list) \<le> i then Inl TypeError
        else
          let ivl = list ! nat i;
              d = semitones ivl;
              root = (if rootMode s = ''random''
                      then Finite (randIntInclusive r2 MIN_PITCH (MAX_PITCH - d))
                      else fixedRootPitch s);
              high = jsAdd root d
          in if jsLess root MIN_PITCH \<or> jsGreater root MAX_PITCH then Inr None
             else if jsLess high MIN_PITCH \<or> jsGreater high MAX_PITCH then Inr None
             else Inr (Some \<lparr>rootPitch = root, highPitch = high, interval = ivl\<rparr>))"

text \<open>
  \<open>pickQuestion\<close> on settings whose fixed root is an integer, with the pitches of the
  question as integers: the form the session state uses. It returns what \<open>pickQuestion\<close>
  returns there (lemma \<open>pickQuestion_int_agrees\<close>).
\<close>

definition pickQuestion_int ::
  "int settings \<Rightarrow> real \<Rightarrow> real \<Rightarrow> error + int question option" where
  "pickQuestion_int s r1 r2 =
    (let list = activeIntervals s;
         i = \<lfloor>r1 * real (length list)\<rfloor>
     in if i < 0 \<or> int (length list) \<le> i then Inl TypeError
        else
          let ivl = list ! nat i;
              d = semitones ivl;
              root = (if rootMode s = ''random''
                      then randIntInclusive r2 MIN_PITCH (MAX_PITCH - d)
                      else fixedRootPitch s);
              high = root + d
          in if root < MIN_PITCH \<or> root > MAX_PITCH then Inr None
             else if high < MIN_PITCH \<or> high > MAX_PITCH then Inr None
             else Inr (Some \<lparr>rootPitch = root, highPitch = high, interval = ivl\<rparr>))"


text \<open>Integer settings and questions as the script's values.\<close>

definition jsSettings :: "int settings \<Rightarrow> jsnum settings" where
  "jsSettings s =
    \<lparr>intervalCount = intervalCount s, rootMode = rootMode s,
     fixedRootPitch = Finite (fixedRootPitch s)\<rparr>"

definition jsQuestion :: "int question \<Rightarrow> jsnum question" where
  "jsQuestion q =
    \<lparr>rootPitch = Finite (rootPitch q), highPitch = Finite (highPitch q),
     interval = interval q\<rparr>"

section \<open>Session state\<close>

text \<open>
  The script keeps its state in variables of one closure: the score, the settings, the four
  round variables \<open>started\<close>, \<open>canAnswer\<close>, \<open>awaitingNext\<close>, \<open>question\<close>, and the audio
  variables \<open>lastPlayToken\<close>, \<open>synthFallbackWarned\<close> and \<open>bufferPromiseCache\<close>. They are
  the fields of \<open>game\<close>. Calls that only write to the page (\<open>updateControls\<close>,
  \<open>setFeedback\<close>, \<open>renderScore\<close>, the keyboard picture, the modals) read these fields and
  change none of them; they are left out.

  What the script sends to the audio engine is kept as a list of commands, \<open>audio\<close>;
  each run of the guarded body of \<open>maybeWarnSynthFallback\<close> (one \<open>console.warn\<close> and one
  notice on the page) is one entry of \<open>warnings\<close>. The counters, \<open>lastPlayToken\<close> among
  them, are natural numbers: a JavaScript number counts exactly up to \<open>2^53\<close>, far more
  than the clicks of a session.
\<close>

record answer_event =
  ev_ts :: string
  ev_root :: string
  ev_high :: string
  ev_interval :: string
  ev_guess :: string
  ev_correct :: bool
  ev_mode :: string
  ev_intervalCount :: jsval

record score =
  asked :: nat
  correct :: nat
  incorrect :: nat
  streak :: nat
  longest :: nat
  history :: "answer_event list"

text \<open>
  \<open>BufferNote url when play fade gain\<close> is a call of \<open>playBufferWindowed\<close> with the decoded
  sample of \<open>url\<close>; \<open>SynthNote pitch when play fade gain\<close> a call of
  \<open>playSynthToneWindowed\<close>.
\<close>

datatype audio_cmd =
    StopUiSounds
  | StopNotes real
  | UiSound string
  | BufferNote string real real real real
  | SynthNote int real real real real

text \<open>The object \<open>loadPitchBuffer\<close> resolves to; \<open>buffer\<close> names the decoded sample.\<close>

record loaded =
  missingUrl :: "string option"
  buffer :: "string option"
  pitch :: int

text \<open>
  An \<open>async\<close> function runs up to its next \<open>await\<close> and goes on later; a timer callback
  runs later too. What is waiting to run is a task:
  \<^item> \<open>RoundFrame\<close>: \<open>startNewRound\<close> at \<open>await new Promise(requestAnimationFrame)\<close>;
  \<^item> \<open>PlayResume token allowAnswerAfter delaySec\<close>: \<open>playCurrentInterval\<close> at
    \<open>await resumeAudioIfNeeded()\<close>;
  \<^item> \<open>PlayLoad token allowAnswerAfter t0 (url1, pitch1) (url2, pitch2)\<close>:
    \<open>playCurrentInterval\<close> at \<open>await Promise.all\<close>, the two loads under way
    (\<open>None\<close> for a pitch class without a stem);
  \<^item> \<open>EnableTimer token startInMs\<close>: the callback given to \<open>window.setTimeout\<close>.
\<close>

datatype task =
    RoundFrame
  | PlayResume nat bool real
  | PlayLoad nat bool real "string option \<times> int" "string option \<times> int"
  | EnableTimer nat int

record game =
  webAudio :: bool
  bufferPromiseCache :: "(string \<times> bool) list"
  lastPlayToken :: nat
  synthFallbackWarned :: bool
  warnings :: "string list"
  audio :: "audio_cmd list"
  score :: score
  settings :: "int settings"
  started :: bool
  canAnswer :: bool
  awaitingNext :: bool
  question :: "int question option"
  pending :: "task list"

type_synonym outcome = "error option \<times> game"

definition resetScore_value :: score where
  "resetScore_value =
    \<lparr>asked = 0, correct = 0, incorrect = 0, streak = 0, longest = 0, history = []\<rparr>"

text \<open>
  The state when the script has loaded: the initial values of its variables. \<open>webAudio\<close>
  tells whether the browser has \<open>window.AudioContext\<close>; nothing changes it. The list of
  audio commands starts empty, after \<open>init\<close> has opened the settings dialog.
\<close>

definition init_game :: "bool \<Rightarrow> game" where
  "init_game wa =
    \<lparr>webAudio = wa, bufferPromiseCache = [], lastPlayToken = 0, synthFallbackWarned = False,
     warnings = [], audio = [], score = resetScore_value,
     settings = \<lparr>intervalCount = JNum 12, rootMode = ''random'',
                 fixedRootPitch = pitchFromPcOct 0 4\<rparr>,
     started = False, canAnswer = False, awaitingNext = False, question = None,
     pending = []\<rparr>"

section \<open>Audio\<close>

definition emit :: "audio_cmd \<Rightarrow> game \<Rightarrow> game" where
  "emit c g = g\<lparr>audio := audio g @ [c]\<rparr>"

definition stopAllNotes :: "real \<Rightarrow> game \<Rightarrow> game" where
  "stopAllNotes fadeSec g = (if \<not> webAudio g then g else emit (StopNotes (max (2 / 100) fadeSec)) g)"

definition stopUiSounds :: "game \<Rightarrow> game" where
  "stopUiSounds g = emit StopUiSounds g"

definition stopAllAudio :: "real \<Rightarrow> game \<Rightarrow> game" where
  "stopAllAudio fadeSec g = stopAllNotes fadeSec (stopUiSounds g)"

definition playUiSound :: "string \<Rightarrow> game \<Rightarrow> game" where
  "playUiSound filename g = emit (UiSound (AUDIO_DIR @ ''/'' @ filename)) g"

definition maybeWarnSynthFallback :: "string \<Rightarrow> game \<Rightarrow> game" where
  "maybeWarnSynthFallback url g =
    (if synthFallbackWarned g then g
     else g\<lparr>synthFallbackWarned := True, warnings := warnings g @ [url]\<rparr>)"

text \<open>
  \<open>loadBuffer\<close> keeps one promise for each URL, so the first outcome of a URL is the
  outcome of every later load of it. \<open>fetchOk url\<close> tells whether fetching and decoding
  \<open>url\<close> succeeds now.
\<close>

definition loadBuffer :: "(string \<Rightarrow> bool) \<Rightarrow> string \<Rightarrow> game \<Rightarrow> bool \<times> game" where
  "loadBuffer fetchOk url g =
    (case map_of (bufferPromiseCache g) url of
       Some ok \<Rightarrow> (ok, g)
     | None \<Rightarrow>
         (let ok = (webAudio g \<and> fetchOk url)
          in (ok, g\<lparr>bufferPromiseCache := bufferPromiseCache g @ [(url, ok)]\<rparr>)))"

text \<open>The part of \<open>loadPitchBuffer\<close> before its \<open>await\<close>: the URL of the sample.\<close>

definition loadPitchBuffer_url :: "int \<Rightarrow> string option \<times> int" where
  "loadPitchBuffer_url p =
    (case getStemForPc (pcFromPitch p) of
       None \<Rightarrow> (None, p)
     | Some stem \<Rightarrow> (Some (noteUrl stem (octFromPitch p)), p))"

text \<open>The part after it.\<close>

definition loadPitchBuffer_done ::
  "(string \<Rightarrow> bool) \<Rightarrow> string option \<times> int \<Rightarrow> game \<Rightarrow> loaded \<times> game" where
  "loadPitchBuffer_done fetchOk req g =
    (case fst req of
       None \<Rightarrow> (\<lparr>missingUrl = Some ''(unknown)'', buffer = None, pitch = snd req\<rparr>, g)
     | Some url \<Rightarrow>
         (let (ok, g') = loadBuffer fetchOk url g
          in if \<not> ok then (\<lparr>missingUrl = Some url, buffer = None, pitch = snd req\<rparr>, g')
             else (\<lparr>missingUrl = None, buffer = Some url, pitch = snd req\<rparr>, g')))"

definition truthy :: "string option \<Rightarrow> bool" where
  "truthy s \<longleftrightarrow> s \<noteq> None \<and> s \<noteq> Some []"

section \<open>Playing the current interval\<close>

text \<open>\<open>playCurrentInterval\<close> up to \<open>await resumeAudioIfNeeded()\<close>.\<close>

definition playCurrentInterval :: "bool \<Rightarrow> real \<Rightarrow> game \<Rightarrow> game" where
  "playCurrentInterval allowAnswerAfter delaySec g =
    (if \<not> started g \<or> question g = None then g
     else
       let token = lastPlayToken g + 1;
           g1 = g\<lparr>lastPlayToken := token\<rparr>;
           g2 = (if allowAnswerAfter then g1\<lparr>canAnswer := False, awaitingNext := False\<rparr>
                 else g1\<lparr>canAnswer := False\<rparr>);
           g3 = stopAllAudio (8 / 100) g2
       in g3\<lparr>pending := pending g3 @ [PlayResume token allowAnswerAfter delaySec]\<rparr>)"

text \<open>
  From there to \<open>await Promise.all\<close>; \<open>now\<close> is \<open>ctx.currentTime\<close>. Reading
  \<open>question.rootPitch\<close> throws when the question has been cleared meanwhile.
\<close>

definition playCurrentInterval_resumed :: "nat \<Rightarrow> bool \<Rightarrow> real \<Rightarrow> real \<Rightarrow> game \<Rightarrow> outcome" where
  "playCurrentInterval_resumed token allowAnswerAfter delaySec now g =
    (if \<not> webAudio g then (None, g)
     else
       let safeDelay = max 0 delaySec;
           t0 = now + 3 / 100 + safeDelay
       in case question g of
            None \<Rightarrow> (Some TypeError, g)
          | Some q \<Rightarrow>
              (None, g\<lparr>pending := pending g @
                 [PlayLoad token allowAnswerAfter t0 (loadPitchBuffer_url (rootPitch q))
                    (loadPitchBuffer_url (highPitch q))]\<rparr>))"

text \<open>\<open>Math.round\<close> rounds halves up.\<close>

definition mathRound :: "real \<Rightarrow> int" where
  "mathRound x = \<lfloor>x + 1 / 2\<rfloor>"

definition startInMs :: "real \<Rightarrow> real \<Rightarrow> int" where
  "startInMs t0 now = max 0 (mathRound ((t0 - now) * 1000))"

text \<open>The callback of the timer.\<close>

definition enableAnswers :: "nat \<Rightarrow> game \<Rightarrow> game" where
  "enableAnswers token g =
    (if token \<noteq> lastPlayToken g then g
     else if \<not> awaitingNext g then g\<lparr>canAnswer := True\<rparr>
     else g)"

text \<open>
  One note: the sample when it was loaded, else a synthesized tone at the pitch of the
  question as it is now (which throws when there is none).
\<close>

definition playNote :: "loaded \<Rightarrow> (int question \<Rightarrow> int) \<Rightarrow> real \<Rightarrow> game \<Rightarrow> outcome" where
  "playNote a sel whenSec g =
    (case buffer a of
       Some url \<Rightarrow> (None, emit (BufferNote url whenSec NOTE_PLAY_SEC (8 / 100) (85 / 100)) g)
     | None \<Rightarrow>
         (case question g of
            None \<Rightarrow> (Some TypeError, g)
          | Some q \<Rightarrow>
              (None, emit (SynthNote (sel q) whenSec NOTE_PLAY_SEC (8 / 100) (25 / 100)) g)))"

text \<open>The rest of \<open>playCurrentInterval\<close>, once both loads have settled.\<close>

definition playCurrentInterval_loaded ::
  "nat \<Rightarrow> bool \<Rightarrow> real \<Rightarrow> string option \<times> int \<Rightarrow> string option \<times> int \<Rightarrow> real \<Rightarrow>
   (string \<Rightarrow> bool) \<Rightarrow> game \<Rightarrow> outcome" where
  "playCurrentInterval_loaded token allowAnswerAfter t0 req1 req2 now fetchOk g =
    (let (a1, g1) = loadPitchBuffer_done fetchOk req1 g;
         (a2, g2) = loadPitchBuffer_done fetchOk req2 g1;
         g3 = (case find (\<lambda>r. truthy (missingUrl r)) [a1, a2] of
                 None \<Rightarrow> g2
               | Some r \<Rightarrow> maybeWarnSynthFallback (the (missingUrl r)) g2);
         g4 = (if allowAnswerAfter
               then g3\<lparr>pending := pending g3 @ [EnableTimer token (startInMs t0 now)]\<rparr>
               else g3)
     in case playNote a1 rootPitch t0 g4 of
          (Some e, g5) \<Rightarrow> (Some e, g5)
        | (None, g5) \<Rightarrow> playNote a2 highPitch (t0 + NOTE_PLAY_SEC + GAP_SEC) g5)"

section \<open>Rounds, answers and reset\<close>

text \<open>
  \<open>startNewRound\<close> up to its first \<open>await\<close>. \<open>r1\<close> and \<open>r2\<close> are the two draws of
  \<open>Math.random()\<close> that \<open>pickQuestion\<close> may make. The settings of a session hold an
  integer root, so the call is \<open>pickQuestion_int\<close>.
\<close>

definition startNewRound :: "bool \<Rightarrow> real \<Rightarrow> real \<Rightarrow> game \<Rightarrow> outcome" where
  "startNewRound autoplay r1 r2 g =
    (if \<not> started g then (None, g)
     else
       let g1 = g\<lparr>awaitingNext := False, canAnswer := False\<rparr>
       in case pickQuestion_int (settings g1) r1 r2 of
            Inl e \<Rightarrow> (Some e, g1)
          | Inr q \<Rightarrow>
              (let g2 = g1\<lparr>question := q\<rparr>
               in if autoplay then (None, g2\<lparr>pending := pending g2 @ [RoundFrame]\<rparr>)
                  else (None, g2)))"

text \<open>After the animation frame \<open>startNewRound\<close> calls \<open>playCurrentInterval\<close>.\<close>

definition startNewRound_frame :: "game \<Rightarrow> game" where
  "startNewRound_frame g = playCurrentInterval True ROUND_START_DELAY_SEC g"

definition lockAfterAnswer :: "game \<Rightarrow> game" where
  "lockAfterAnswer g = g\<lparr>canAnswer := False, awaitingNext := True\<rparr>"

text \<open>
  \<open>onAnswer\<close>; \<open>ts\<close> is \<open>new Date().toISOString()\<close>. The buttons carry the indices
  \<open>0..11\<close>; for any other index \<open>chosen\<close> is \<open>undefined\<close> and \<open>chosen.code\<close> throws,
  after \<open>score.asked\<close> has been incremented.
\<close>

definition onAnswer :: "nat \<Rightarrow> string \<Rightarrow> game \<Rightarrow> outcome" where
  "onAnswer intervalIndex ts g =
    (case question g of
       None \<Rightarrow> (None, g)
     | Some q \<Rightarrow>
         if \<not> started g \<or> \<not> canAnswer g \<or> awaitingNext g then (None, g)
         else
           let sc1 = (score g)\<lparr>asked := asked (score g) + 1\<rparr>
           in if length IVL_ALL \<le> intervalIndex then (Some TypeError, g\<lparr>score := sc1\<rparr>)
              else
                let chosen = IVL_ALL ! intervalIndex;
                    corr = interval q;
                    isCorrect = (code chosen = code corr);
                    rootLbl = pitchLabel (rootPitch q);
                    highLbl = pitchLabel (highPitch q);
                    sc2 = (if isCorrect
                           then sc1\<lparr>correct := correct sc1 + 1, streak := streak sc1 + 1,
                                    longest := max (longest sc1) (streak sc1 + 1)\<rparr>
                           else sc1\<lparr>incorrect := incorrect sc1 + 1, streak := 0\<rparr>);
                    g1 = playUiSound (if isCorrect then SND_CORRECT else SND_INCORRECT) g;
                    sc3 = sc2\<lparr>history := history sc2 @
                            [\<lparr>ev_ts = ts, ev_root = rootLbl, ev_high = highLbl,
                              ev_interval = code corr, ev_guess = code chosen,
                              ev_correct = isCorrect, ev_mode = rootMode (settings g),
                              ev_intervalCount = intervalCount (settings g)\<rparr>]\<rparr>
                in (None, lockAfterAnswer (g1\<lparr>score := sc3\<rparr>)))"

definition resetScore :: "game \<Rightarrow> game" where
  "resetScore g = g\<lparr>score := resetScore_value\<rparr>"

text \<open>
  \<open>applySettingsAndRestart\<close> up to the first \<open>await\<close> of \<open>startNewRound\<close>. \<open>countVal\<close> and
  \<open>modeVal\<close> are the values of the two select boxes; \<open>rootVal\<close> is
  \<open>Number.parseInt(rootNoteSel.value, 10)\<close>. The script stores it untested. A session here
  is one in which it is an integer, as it is for every option \<open>buildRootOptions\<close> puts in
  that box (their values are the decimal digits of pitches); a session that stores \<open>NaN\<close>
  is not among the runs below, and what \<open>pickQuestion\<close> does with \<open>NaN\<close> is stated on
  \<open>pickQuestion\<close> itself.
\<close>

definition applySettingsAndRestart ::
  "string \<Rightarrow> string \<Rightarrow> int \<Rightarrow> real \<Rightarrow> real \<Rightarrow> game \<Rightarrow> outcome" where
  "applySettingsAndRestart countVal modeVal rootVal r1 r2 g =
    (let st = \<lparr>intervalCount = JNum (clampInt (JStr countVal) 2 (int (length IVL_ALL))),
               rootMode = (if modeVal = ''fixed'' then ''fixed'' else ''random''),
               fixedRootPitch = rootVal\<rparr>;
         g1 = resetScore (g\<lparr>settings := st\<rparr>);
         g2 = g1\<lparr>started := True, awaitingNext := False, canAnswer := False, question := None\<rparr>
     in startNewRound True r1 r2 g2)"

definition stopAndResetToNotStarted :: "game \<Rightarrow> game" where
  "stopAndResetToNotStarted g =
    (let g1 = stopAllAudio (8 / 100) g;
         g2 = g1\<lparr>started := False, canAnswer := False, awaitingNext := False, question := None\<rparr>
     in resetScore g2)"

text \<open>The click handlers of the reset, replay and next buttons.\<close>

definition resetBtn_click :: "game \<Rightarrow> game" where
  "resetBtn_click g = stopAllAudio (6 / 100) (stopAndResetToNotStarted g)"

definition replayBtn_click :: "game \<Rightarrow> game" where
  "replayBtn_click g =
    (if \<not> started g \<or> question g = None then g
     else playCurrentInterval (\<not> awaitingNext g) 0 g)"

definition nextBtn_click :: "real \<Rightarrow> real \<Rightarrow> game \<Rightarrow> outcome" where
  "nextBtn_click r1 r2 g =
    (if \<not> started g \<or> \<not> awaitingNext g then (None, g) else startNewRound True r1 r2 g)"

section \<open>Events\<close>

text \<open>
  The script runs one handler at a time: a click, or a waiting task. \<open>Resume k now fetchOk\<close>
  runs the \<open>k\<close>-th waiting task at audio time \<open>now\<close>, with \<open>fetchOk\<close> telling which
  samples load. Tasks may run in any order and at any time here, which covers every order
  the browser can choose. An exception ends its handler and leaves the state as it is at the
  throw. The keys R and Space click the replay and next buttons. The handlers of the
  settings, info and download buttons write none of the variables of \<open>game\<close> but the
  audio commands (they stop sounds and play a click); they are not events here.
\<close>

datatype event =
    ApplyClick string string int real real
  | ResetClick
  | ReplayClick
  | NextClick real real
  | AnswerClick nat string
  | Resume nat real "string \<Rightarrow> bool"

fun run_task :: "task \<Rightarrow> real \<Rightarrow> (string \<Rightarrow> bool) \<Rightarrow> game \<Rightarrow> game" where
  "run_task RoundFrame now fetchOk g = startNewRound_frame g"
| "run_task (PlayResume token allow delaySec) now fetchOk g =
     snd (playCurrentInterval_resumed token allow delaySec now g)"
| "run_task (PlayLoad token allow t0 req1 req2) now fetchOk g =
     snd (playCurrentInterval_loaded token allow t0 req1 req2 now fetchOk g)"
| "run_task (EnableTimer token ms) now fetchOk g = enableAnswers token g"

fun step :: "event \<Rightarrow> game \<Rightarrow> game" where
  "step (ApplyClick countVal modeVal rootVal r1 r2) g =
     snd (applySettingsAndRestart countVal modeVal rootVal r1 r2 g)"
| "step ResetClick g = resetBtn_click g"
| "step ReplayClick g = replayBtn_click g"
| "step (NextClick r1 r2) g = snd (nextBtn_click r1 r2 g)"
| "step (AnswerClick i ts) g = snd (onAnswer i ts g)"
| "step (Resume k now fetchOk) g =
     (if k < length (pending g)
      then run_task (pending g ! k) now fetchOk
             (g\<lparr>pending := take k (pending g) @ drop (Suc k) (pending g)\<rparr>)
      else g)"

fun run :: "event list \<Rightarrow> game \<Rightarrow> game" where
  "run [] g = g"
| "run (e # es) g = run es (step e g)"

section \<open>Notions used to state the properties\<close>

text \<open>
  The script has no variable for the phase of a round; the four phases are read off its
  variables the way \<open>updateControls\<close> and the guard of \<open>onAnswer\<close> read them.
\<close>

datatype phase = NotStarted | Listening | AwaitingAnswer | Locked

definition phaseOf :: "game \<Rightarrow> phase" where
  "phaseOf g =
    (if \<not> started g then NotStarted
     else if awaitingNext g then Locked
     else if canAnswer g \<and> question g \<noteq> None then AwaitingAnswer
     else Listening)"

text \<open>The outcomes recorded since the score was last reset, oldest first.\<close>

definition outcomes :: "game \<Rightarrow> bool list" where
  "outcomes g = map ev_correct (history (score g))"

text \<open>The length of the run of correct answers at the end of a sequence of outcomes.\<close>

definition trailingRun :: "bool list \<Rightarrow> nat" where
  "trailingRun bs = length (takeWhile (\<lambda>b. b) (rev bs))"

text \<open>The greatest value the trailing run has had along the sequence.\<close>

definition runningMax :: "bool list \<Rightarrow> nat" where
  "runningMax bs = foldr max (map (\<lambda>k. trailingRun (take k bs)) [0..<Suc (length bs)]) 0"

text \<open>The command \<open>playNote\<close> sends for a load result, a pitch and a start time.\<close>

definition noteCmd :: "loaded \<Rightarrow> int \<Rightarrow> real \<Rightarrow> audio_cmd" where
  "noteCmd a p whenSec =
    (case buffer a of
       Some url \<Rightarrow> BufferNote url whenSec NOTE_PLAY_SEC (8 / 100) (85 / 100)
     | None \<Rightarrow> SynthNote p whenSec NOTE_PLAY_SEC (8 / 100) (25 / 100))"

text \<open>The settings hold an interval count the script itself wrote: a number from 2 to 12.\<close>

definition countOk :: "game \<Rightarrow> bool" where
  "countOk g = (case intervalCount (settings g) of
                  JNum n \<Rightarrow> 2 \<le> n \<and> n \<le> 12
                | _ \<Rightarrow> False)"

text \<open>The interval of the current question is one of the active intervals.\<close>

definition questionActive :: "game \<Rightarrow> bool" where
  "questionActive g = (case question g of
                         None \<Rightarrow> True
                       | Some q \<Rightarrow> interval q \<in> set (activeIntervals (settings g)))"

section \<open>A sample session\<close>

text \<open>
  States of one session, used to evaluate the handlers on concrete input. The browser has
  Web Audio and no sample file loads, so every note is synthesized. The player begins a game
  with three intervals and the fixed root 48 (middle C); the first draw of
  \<open>Math.random()\<close> is \<open>1/2\<close>, which picks the major second, so the question is the
  pitches 48 and 50.

  \<open>demo_begun\<close> is the state when the animation-frame task of the first round starts to
  run; \<open>demo_listening\<close> the state once the round's playback has been scheduled at audio
  time 0 (the timer waits, set to 280 ms); \<open>demo_awaiting\<close> the state after that timer has
  run; \<open>demo_locked\<close> the state after the answer "minor third" (index 2).
\<close>

definition noSamples :: "string \<Rightarrow> bool" where
  "noSamples url = False"

definition demo_begun :: game where
  "demo_begun =
    step (ApplyClick ''3'' ''fixed'' 48 (1 / 2) 0) (init_game True)\<lparr>pending := []\<rparr>"

definition demo_listening :: game where
  "demo_listening =
    run [ApplyClick ''3'' ''fixed'' 48 (1 / 2) 0, Resume 0 0 noSamples, Resume 0 0 noSamples,
         Resume 0 0 noSamples] (init_game True)"

definition demo_awaiting :: game where
  "demo_awaiting = step (Resume 0 (28 / 100) noSamples) demo_listening"

definition demo_locked :: game where
  "demo_locked = step (AnswerClick 2 ''2026-01-01T00:00:00.000Z'') demo_awaiting"

text \<open>
  A longer session from the start: four rounds, each played and answered. Every question is
  the major second (index 1) on pitch 48; the answers are right, right, wrong (index 0), right.
\<close>

definition demo_play :: "event list" where
  "demo_play = [Resume 0 0 noSamples, Resume 0 0 noSamples, Resume 0 0 noSamples,
                Resume 0 (28 / 100) noSamples]"

definition demo_four_rounds :: "event list" where
  "demo_four_rounds =
    [ApplyClick ''3'' ''fixed'' 48 (1 / 2) 0] @ demo_play
      @ [AnswerClick 1 ''2026-01-01T00:00:01.000Z'', NextClick (1 / 2) 0] @ demo_play
      @ [AnswerClick 1 ''2026-01-01T00:00:02.000Z'', NextClick (1 / 2) 0] @ demo_play
      @ [AnswerClick 0 ''2026-01-01T00:00:03.000Z'', NextClick (1 / 2) 0] @ demo_play
      @ [AnswerClick 1 ''2026-01-01T00:00:04.000Z'']"

text \<open>The first round alone, up to the moment answering is enabled.\<close>

definition demo_first_round :: "event list" where
  "demo_first_round = [ApplyClick ''3'' ''fixed'' 48 (1 / 2) 0] @ demo_play"

section \<open>Parsing what String() prints\<close>

lemma digitVal_digitChar: "d < 10 \<Longrightarrow> digitVal (digitChar d) = Some d"
proof -
  assume "d < 10"
  then have "d \<in> {0, 1, 2, 3, 4, 5, 6, 7, 8, 9}" by auto
  then show ?thesis
    by (auto simp: digitVal_def digitChar_def)
qed

lemma digitChar_plain:
  "d < 10 \<Longrightarrow> isDigit (digitChar d) \<and> \<not> isStrWhiteSpace (digitChar d)
     \<and> digitChar d \<noteq> CHR ''-'' \<and> digitChar d \<noteq> CHR ''+''"
proof -
  assume "d < 10"
  then have "d \<in> {0, 1, 2, 3, 4, 5, 6, 7, 8, 9}" by auto
  then show ?thesis
    by (auto simp: isDigit_def digitVal_def digitChar_def isStrWhiteSpace_def)
qed

lemma digits10_nonempty: "digits10 n \<noteq> []"
  by (subst digits10.simps) simp

lemma digits10_all_digits: "\<forall>c \<in> set (digits10 n). isDigit c"
proof (induction n rule: digits10.induct)
  case (1 n)
  show ?case
  proof (cases "n < 10")
    case True
    then show ?thesis by (subst digits10.simps) (simp add: digitChar_plain)
  next
    case False
    with 1 show ?thesis by (subst digits10.simps) (simp add: digitChar_plain)
  qed
qed

lemma digits10_hd: "isDigit (hd (digits10 n))"
  using digits10_all_digits [of n] digits10_nonempty [of n] by (cases "digits10 n") auto

lemma digitsValue_snoc: "digitsValue (xs @ [c]) = 10 * digitsValue xs + the (digitVal c)"
  by (simp add: digitsValue_def)

lemma digitsValue_digits10: "digitsValue (digits10 n) = n"
proof (induction n rule: digits10.induct)
  case (1 n)
  show ?case
  proof (cases "n < 10")
    case True
    then show ?thesis
      by (subst digits10.simps) (simp add: digitsValue_def digitVal_digitChar)
  next
    case False
    with 1 show ?thesis
      by (subst digits10.simps) (simp add: digitsValue_snoc digitVal_digitChar)
  qed
qed

lemma isDigit_plain: "isDigit c \<Longrightarrow> \<not> isStrWhiteSpace c \<and> c \<noteq> CHR ''-'' \<and> c \<noteq> CHR ''+''"
  by (auto simp: isDigit_def digitVal_def isStrWhiteSpace_def split: if_splits)

lemma parseInt10_all_digits:
  assumes ne: "z \<noteq> []" and dg: "\<forall>c \<in> set z. isDigit c"
  shows "parseInt10 z = Some (int (digitsValue z))"
proof -
  have tw: "takeWhile isDigit z = z" using dg by simp
  have "isDigit (hd z)" using ne dg by (cases z) auto
  then have h: "\<not> isStrWhiteSpace (hd z)" "hd z \<noteq> CHR ''-''" "hd z \<noteq> CHR ''+''"
    using isDigit_plain by blast+
  have dw: "dropWhile isStrWhiteSpace z = z" using ne h by (cases z) auto
  show ?thesis by (simp add: parseInt10_def Let_def dw tw h ne)
qed

lemma parseInt10_minus_all_digits:
  assumes ne: "z \<noteq> []" and dg: "\<forall>c \<in> set z. isDigit c"
  shows "parseInt10 (CHR ''-'' # z) = Some (- int (digitsValue z))"
proof -
  have tw: "takeWhile isDigit z = z" using dg by simp
  have ws: "\<not> isStrWhiteSpace CHR ''-''" by (simp add: isStrWhiteSpace_def)
  show ?thesis by (simp add: parseInt10_def Let_def tw ws ne)
qed

lemma parseInt10_digits: "parseInt10 (digits10 n) = Some (int n)"
  by (simp add: parseInt10_all_digits digits10_nonempty digits10_all_digits digitsValue_digits10)

lemma parseInt10_minus_digits: "parseInt10 (CHR ''-'' # digits10 n) = Some (- int n)"
  by (simp add: parseInt10_minus_all_digits digits10_nonempty digits10_all_digits
      digitsValue_digits10)

lemma parseInt10_intString: "parseInt10 (intString n) = Some n"
  by (simp add: intString_def parseInt10_digits parseInt10_minus_digits)

lemma clampInt_bounds: "lo \<le> hi \<Longrightarrow> lo \<le> clampInt v lo hi \<and> clampInt v lo hi \<le> hi"
  by (simp add: clampInt_def split: option.splits)

lemma clampInt_JNum:
  "isFiniteNumber n \<Longrightarrow> clampInt (JNum n) lo hi = max lo (min hi n)"
  by (simp add: clampInt_def parseInt10_intString)

lemma length_IVL_ALL: "length IVL_ALL = 12"
  by (simp add: IVL_ALL_def)

lemma small_isFiniteNumber: "\<bar>n\<bar> < 10 ^ 21 \<Longrightarrow> isFiniteNumber n"
proof -
  assume a: "\<bar>n\<bar> < 10 ^ 21"
  have "(10::int) ^ 21 < 2 ^ 970" by simp
  moreover have "(2::int) ^ 970 + 2 ^ 970 \<le> 2 ^ 1024" by simp
  ultimately show ?thesis using a unfolding isFiniteNumber_def by linarith
qed

lemma activeIntervals_take:
  "activeIntervals s = take (nat (clampInt (intervalCount s) 2 12)) IVL_ALL"
  by (simp add: activeIntervals_def length_IVL_ALL)



section \<open>The active intervals\<close>

text \<open>
  C5. For every \<open>intervalCount\<close> from 2 to 12, \<open>activeIntervals\<close> is the first
  \<open>intervalCount\<close> entries of \<open>IVL_ALL\<close>, in catalog order. A number outside that range
  is clamped into it, and a value that \<open>parseInt\<close> reads no number from counts as 2; so
  whatever the value is, the result is the first \<open>k\<close> entries for some \<open>k\<close> from 2 to 12.
  The catalog has 12 entries, minor second (1 semitone) to perfect octave (12), and no
  unison.
\<close>

theorem activeIntervals_prefix:
  "(2 \<le> n \<and> n \<le> 12 \<longrightarrow>
      activeIntervals (s\<lparr>intervalCount := JNum n\<rparr>) = take (nat n) IVL_ALL)
   \<and> (\<bar>m\<bar> < 10 ^ 21 \<longrightarrow>
      activeIntervals (s\<lparr>intervalCount := JNum m\<rparr>) = take (nat (max 2 (min 12 m))) IVL_ALL)
   \<and> (parseInt10 (jsString v) = None \<longrightarrow>
      activeIntervals (s\<lparr>intervalCount := v\<rparr>) = take 2 IVL_ALL)
   \<and> (\<exists>k. 2 \<le> k \<and> k \<le> 12 \<and> activeIntervals s = take k IVL_ALL)
   \<and> length IVL_ALL = 12
   \<and> map semitones IVL_ALL = [1, 2, 3, 4, 5, 6, 7, 8, 9, 10, 11, 12]
   \<and> map code IVL_ALL =
       [''m2'', ''M2'', ''m3'', ''M3'', ''P4'', ''A4/d5'', ''P5'', ''m6'', ''M6'', ''m7'', ''M7'',
        ''P8'']"
proof -
  have a: "2 \<le> n \<and> n \<le> 12 \<longrightarrow>
      activeIntervals (s\<lparr>intervalCount := JNum n\<rparr>) = take (nat n) IVL_ALL"
  proof
    assume n: "2 \<le> n \<and> n \<le> 12"
    then have "\<bar>n\<bar> < 10 ^ 21" by simp
    then have "clampInt (JNum n) 2 12 = max 2 (min 12 n)"
      by (simp add: clampInt_JNum small_isFiniteNumber)
    with n show "activeIntervals (s\<lparr>intervalCount := JNum n\<rparr>) = take (nat n) IVL_ALL"
      by (simp add: activeIntervals_take)
  qed
  have b: "\<bar>m\<bar> < 10 ^ 21 \<longrightarrow>
      activeIntervals (s\<lparr>intervalCount := JNum m\<rparr>) = take (nat (max 2 (min 12 m))) IVL_ALL"
    by (simp add: activeIntervals_take clampInt_JNum small_isFiniteNumber)
  have c: "parseInt10 (jsString v) = None \<longrightarrow>
      activeIntervals (s\<lparr>intervalCount := v\<rparr>) = take 2 IVL_ALL"
    by (simp add: activeIntervals_take clampInt_def)
  have d: "\<exists>k. 2 \<le> k \<and> k \<le> 12 \<and> activeIntervals s = take k IVL_ALL"
    using clampInt_bounds [of 2 12 "intervalCount s"]
    by (intro exI [of _ "nat (clampInt (intervalCount s) 2 12)"]) (auto simp add: activeIntervals_take)
  have e: "map semitones IVL_ALL = [1, 2, 3, 4, 5, 6, 7, 8, 9, 10, 11, 12]"
    by (simp add: IVL_ALL_def mk_interval_def)
  have f: "map code IVL_ALL =
       [''m2'', ''M2'', ''m3'', ''M3'', ''P4'', ''A4/d5'', ''P5'', ''m6'', ''M6'', ''m7'', ''M7'',
        ''P8'']"
    by (simp add: IVL_ALL_def mk_interval_def)
  from a b c d e f length_IVL_ALL show ?thesis by blast
qed

theorem activeIntervals_prefix_witness:
  "activeIntervals (settings (init_game True)\<lparr>intervalCount := JNum 5\<rparr>) = take 5 IVL_ALL
   \<and> activeIntervals (settings (init_game True)\<lparr>intervalCount := JNum 40\<rparr>) = IVL_ALL
   \<and> activeIntervals (settings (init_game True)\<lparr>intervalCount := JNum (- 3)\<rparr>) = take 2 IVL_ALL
   \<and> activeIntervals (settings (init_game True)\<lparr>intervalCount := JStr ''many''\<rparr>)
       = take 2 IVL_ALL"
proof -
  have h: "parseInt10 (jsString (JStr ''many'')) = None" by code_simp
  have l: "take 12 IVL_ALL = IVL_ALL" by (simp add: length_IVL_ALL)
  show ?thesis
    using activeIntervals_prefix [of 5 "settings (init_game True)" 40 "JStr ''many''"]
      activeIntervals_prefix [of 5 "settings (init_game True)" "- 3" "JStr ''many''"] h l
    by simp
qed

section \<open>Question generation\<close>

lemma pickQuestion_int_agrees:
  "pickQuestion (jsSettings s) r1 r2
     = map_sum id (map_option jsQuestion) (pickQuestion_int s r1 r2)"
proof -
  have a: "activeIntervals (jsSettings s) = activeIntervals s"
    by (simp add: activeIntervals_def jsSettings_def)
  have f: "rootMode (jsSettings s) = rootMode s"
    "fixedRootPitch (jsSettings s) = Finite (fixedRootPitch s)"
    by (simp_all add: jsSettings_def)
  show ?thesis
    by (simp add: pickQuestion_def pickQuestion_int_def a f Let_def jsQuestion_def)
qed






section \<open>What each handler leaves alone\<close>

text \<open>
  Each function of the script writes a few of the variables; the lemmas of this section
  list, function by function, the variables it does not write.
\<close>

lemma emit_keeps [simp]:
  "webAudio (emit c g) = webAudio g"
  "bufferPromiseCache (emit c g) = bufferPromiseCache g"
  "lastPlayToken (emit c g) = lastPlayToken g"
  "synthFallbackWarned (emit c g) = synthFallbackWarned g"
  "warnings (emit c g) = warnings g"
  "score (emit c g) = score g"
  "settings (emit c g) = settings g"
  "started (emit c g) = started g"
  "canAnswer (emit c g) = canAnswer g"
  "awaitingNext (emit c g) = awaitingNext g"
  "question (emit c g) = question g"
  "pending (emit c g) = pending g"
  by (simp_all add: emit_def)

lemma stopAllNotes_keeps [simp]:
  "webAudio (stopAllNotes f g) = webAudio g"
  "bufferPromiseCache (stopAllNotes f g) = bufferPromiseCache g"
  "lastPlayToken (stopAllNotes f g) = lastPlayToken g"
  "synthFallbackWarned (stopAllNotes f g) = synthFallbackWarned g"
  "warnings (stopAllNotes f g) = warnings g"
  "score (stopAllNotes f g) = score g"
  "settings (stopAllNotes f g) = settings g"
  "started (stopAllNotes f g) = started g"
  "canAnswer (stopAllNotes f g) = canAnswer g"
  "awaitingNext (stopAllNotes f g) = awaitingNext g"
  "question (stopAllNotes f g) = question g"
  "pending (stopAllNotes f g) = pending g"
  by (simp_all add: stopAllNotes_def)

lemma stopUiSounds_keeps [simp]:
  "webAudio (stopUiSounds g) = webAudio g"
  "bufferPromiseCache (stopUiSounds g) = bufferPromiseCache g"
  "lastPlayToken (stopUiSounds g) = lastPlayToken g"
  "synthFallbackWarned (stopUiSounds g) = synthFallbackWarned g"
  "warnings (stopUiSounds g) = warnings g"
  "score (stopUiSounds g) = score g"
  "settings (stopUiSounds g) = settings g"
  "started (stopUiSounds g) = started g"
  "canAnswer (stopUiSounds g) = canAnswer g"
  "awaitingNext (stopUiSounds g) = awaitingNext g"
  "question (stopUiSounds g) = question g"
  "pending (stopUiSounds g) = pending g"
  by (simp_all add: stopUiSounds_def)

lemma stopAllAudio_keeps [simp]:
  "webAudio (stopAllAudio f g) = webAudio g"
  "bufferPromiseCache (stopAllAudio f g) = bufferPromiseCache g"
  "lastPlayToken (stopAllAudio f g) = lastPlayToken g"
  "synthFallbackWarned (stopAllAudio f g) = synthFallbackWarned g"
  "warnings (stopAllAudio f g) = warnings g"
  "score (stopAllAudio f g) = score g"
  "settings (stopAllAudio f g) = settings g"
  "started (stopAllAudio f g) = started g"
  "canAnswer (stopAllAudio f g) = canAnswer g"
  "awaitingNext (stopAllAudio f g) = awaitingNext g"
  "question (stopAllAudio f g) = question g"
  "pending (stopAllAudio f g) = pending g"
  by (simp_all add: stopAllAudio_def)

lemma playUiSound_keeps [simp]:
  "webAudio (playUiSound f g) = webAudio g"
  "bufferPromiseCache (playUiSound f g) = bufferPromiseCache g"
  "lastPlayToken (playUiSound f g) = lastPlayToken g"
  "synthFallbackWarned (playUiSound f g) = synthFallbackWarned g"
  "warnings (playUiSound f g) = warnings g"
  "score (playUiSound f g) = score g"
  "settings (playUiSound f g) = settings g"
  "started (playUiSound f g) = started g"
  "canAnswer (playUiSound f g) = canAnswer g"
  "awaitingNext (playUiSound f g) = awaitingNext g"
  "question (playUiSound f g) = question g"
  "pending (playUiSound f g) = pending g"
  by (simp_all add: playUiSound_def)

lemma maybeWarnSynthFallback_keeps [simp]:
  "webAudio (maybeWarnSynthFallback u g) = webAudio g"
  "bufferPromiseCache (maybeWarnSynthFallback u g) = bufferPromiseCache g"
  "lastPlayToken (maybeWarnSynthFallback u g) = lastPlayToken g"
  "audio (maybeWarnSynthFallback u g) = audio g"
  "score (maybeWarnSynthFallback u g) = score g"
  "settings (maybeWarnSynthFallback u g) = settings g"
  "started (maybeWarnSynthFallback u g) = started g"
  "canAnswer (maybeWarnSynthFallback u g) = canAnswer g"
  "awaitingNext (maybeWarnSynthFallback u g) = awaitingNext g"
  "question (maybeWarnSynthFallback u g) = question g"
  "pending (maybeWarnSynthFallback u g) = pending g"
  by (simp_all add: maybeWarnSynthFallback_def)

lemma loadBuffer_keeps [simp]:
  "webAudio (snd (loadBuffer f u g)) = webAudio g"
  "lastPlayToken (snd (loadBuffer f u g)) = lastPlayToken g"
  "synthFallbackWarned (snd (loadBuffer f u g)) = synthFallbackWarned g"
  "warnings (snd (loadBuffer f u g)) = warnings g"
  "audio (snd (loadBuffer f u g)) = audio g"
  "score (snd (loadBuffer f u g)) = score g"
  "settings (snd (loadBuffer f u g)) = settings g"
  "started (snd (loadBuffer f u g)) = started g"
  "canAnswer (snd (loadBuffer f u g)) = canAnswer g"
  "awaitingNext (snd (loadBuffer f u g)) = awaitingNext g"
  "question (snd (loadBuffer f u g)) = question g"
  "pending (snd (loadBuffer f u g)) = pending g"
  by (simp_all add: loadBuffer_def Let_def split: option.splits)

lemma loadPitchBuffer_done_keeps [simp]:
  "webAudio (snd (loadPitchBuffer_done f r g)) = webAudio g"
  "lastPlayToken (snd (loadPitchBuffer_done f r g)) = lastPlayToken g"
  "synthFallbackWarned (snd (loadPitchBuffer_done f r g)) = synthFallbackWarned g"
  "warnings (snd (loadPitchBuffer_done f r g)) = warnings g"
  "audio (snd (loadPitchBuffer_done f r g)) = audio g"
  "score (snd (loadPitchBuffer_done f r g)) = score g"
  "settings (snd (loadPitchBuffer_done f r g)) = settings g"
  "started (snd (loadPitchBuffer_done f r g)) = started g"
  "canAnswer (snd (loadPitchBuffer_done f r g)) = canAnswer g"
  "awaitingNext (snd (loadPitchBuffer_done f r g)) = awaitingNext g"
  "question (snd (loadPitchBuffer_done f r g)) = question g"
  "pending (snd (loadPitchBuffer_done f r g)) = pending g"
  by (simp_all add: loadPitchBuffer_done_def Let_def split_beta split: option.splits)

lemma playNote_keeps [simp]:
  "webAudio (snd (playNote a sel w g)) = webAudio g"
  "bufferPromiseCache (snd (playNote a sel w g)) = bufferPromiseCache g"
  "lastPlayToken (snd (playNote a sel w g)) = lastPlayToken g"
  "synthFallbackWarned (snd (playNote a sel w g)) = synthFallbackWarned g"
  "warnings (snd (playNote a sel w g)) = warnings g"
  "score (snd (playNote a sel w g)) = score g"
  "settings (snd (playNote a sel w g)) = settings g"
  "started (snd (playNote a sel w g)) = started g"
  "canAnswer (snd (playNote a sel w g)) = canAnswer g"
  "awaitingNext (snd (playNote a sel w g)) = awaitingNext g"
  "question (snd (playNote a sel w g)) = question g"
  "pending (snd (playNote a sel w g)) = pending g"
  by (simp_all add: playNote_def split: option.splits)

lemma playCurrentInterval_loaded_keeps [simp]:
  "webAudio (snd (playCurrentInterval_loaded tok al t0 r1 r2 now f g)) = webAudio g"
  "lastPlayToken (snd (playCurrentInterval_loaded tok al t0 r1 r2 now f g)) = lastPlayToken g"
  "score (snd (playCurrentInterval_loaded tok al t0 r1 r2 now f g)) = score g"
  "settings (snd (playCurrentInterval_loaded tok al t0 r1 r2 now f g)) = settings g"
  "started (snd (playCurrentInterval_loaded tok al t0 r1 r2 now f g)) = started g"
  "canAnswer (snd (playCurrentInterval_loaded tok al t0 r1 r2 now f g)) = canAnswer g"
  "awaitingNext (snd (playCurrentInterval_loaded tok al t0 r1 r2 now f g)) = awaitingNext g"
  "question (snd (playCurrentInterval_loaded tok al t0 r1 r2 now f g)) = question g"
  by (simp_all add: playCurrentInterval_loaded_def Let_def split_beta truthy_def split: option.splits prod.splits)

lemma playCurrentInterval_resumed_keeps [simp]:
  "webAudio (snd (playCurrentInterval_resumed tok al d now g)) = webAudio g"
  "bufferPromiseCache (snd (playCurrentInterval_resumed tok al d now g)) = bufferPromiseCache g"
  "lastPlayToken (snd (playCurrentInterval_resumed tok al d now g)) = lastPlayToken g"
  "synthFallbackWarned (snd (playCurrentInterval_resumed tok al d now g)) = synthFallbackWarned g"
  "warnings (snd (playCurrentInterval_resumed tok al d now g)) = warnings g"
  "audio (snd (playCurrentInterval_resumed tok al d now g)) = audio g"
  "score (snd (playCurrentInterval_resumed tok al d now g)) = score g"
  "settings (snd (playCurrentInterval_resumed tok al d now g)) = settings g"
  "started (snd (playCurrentInterval_resumed tok al d now g)) = started g"
  "canAnswer (snd (playCurrentInterval_resumed tok al d now g)) = canAnswer g"
  "awaitingNext (snd (playCurrentInterval_resumed tok al d now g)) = awaitingNext g"
  "question (snd (playCurrentInterval_resumed tok al d now g)) = question g"
  by (simp_all add: playCurrentInterval_resumed_def Let_def split: option.splits)

lemma enableAnswers_keeps [simp]:
  "webAudio (enableAnswers tok g) = webAudio g"
  "bufferPromiseCache (enableAnswers tok g) = bufferPromiseCache g"
  "lastPlayToken (enableAnswers tok g) = lastPlayToken g"
  "synthFallbackWarned (enableAnswers tok g) = synthFallbackWarned g"
  "warnings (enableAnswers tok g) = warnings g"
  "audio (enableAnswers tok g) = audio g"
  "score (enableAnswers tok g) = score g"
  "settings (enableAnswers tok g) = settings g"
  "started (enableAnswers tok g) = started g"
  "awaitingNext (enableAnswers tok g) = awaitingNext g"
  "question (enableAnswers tok g) = question g"
  "pending (enableAnswers tok g) = pending g"
  by (simp_all add: enableAnswers_def)

lemma playCurrentInterval_keeps [simp]:
  "webAudio (playCurrentInterval al d g) = webAudio g"
  "bufferPromiseCache (playCurrentInterval al d g) = bufferPromiseCache g"
  "synthFallbackWarned (playCurrentInterval al d g) = synthFallbackWarned g"
  "warnings (playCurrentInterval al d g) = warnings g"
  "score (playCurrentInterval al d g) = score g"
  "settings (playCurrentInterval al d g) = settings g"
  "started (playCurrentInterval al d g) = started g"
  "question (playCurrentInterval al d g) = question g"
  by (simp_all add: playCurrentInterval_def Let_def)

lemma startNewRound_keeps [simp]:
  "webAudio (snd (startNewRound ap r1 r2 g)) = webAudio g"
  "bufferPromiseCache (snd (startNewRound ap r1 r2 g)) = bufferPromiseCache g"
  "lastPlayToken (snd (startNewRound ap r1 r2 g)) = lastPlayToken g"
  "synthFallbackWarned (snd (startNewRound ap r1 r2 g)) = synthFallbackWarned g"
  "warnings (snd (startNewRound ap r1 r2 g)) = warnings g"
  "audio (snd (startNewRound ap r1 r2 g)) = audio g"
  "score (snd (startNewRound ap r1 r2 g)) = score g"
  "settings (snd (startNewRound ap r1 r2 g)) = settings g"
  "started (snd (startNewRound ap r1 r2 g)) = started g"
  by (simp_all add: startNewRound_def Let_def split: sum.splits)

lemma onAnswer_keeps [simp]:
  "webAudio (snd (onAnswer i ts g)) = webAudio g"
  "bufferPromiseCache (snd (onAnswer i ts g)) = bufferPromiseCache g"
  "lastPlayToken (snd (onAnswer i ts g)) = lastPlayToken g"
  "synthFallbackWarned (snd (onAnswer i ts g)) = synthFallbackWarned g"
  "warnings (snd (onAnswer i ts g)) = warnings g"
  "settings (snd (onAnswer i ts g)) = settings g"
  "started (snd (onAnswer i ts g)) = started g"
  "question (snd (onAnswer i ts g)) = question g"
  "pending (snd (onAnswer i ts g)) = pending g"
  by (simp_all add: onAnswer_def Let_def lockAfterAnswer_def split: option.splits)

lemma resetScore_keeps [simp]:
  "webAudio (resetScore g) = webAudio g"
  "bufferPromiseCache (resetScore g) = bufferPromiseCache g"
  "lastPlayToken (resetScore g) = lastPlayToken g"
  "synthFallbackWarned (resetScore g) = synthFallbackWarned g"
  "warnings (resetScore g) = warnings g"
  "audio (resetScore g) = audio g"
  "settings (resetScore g) = settings g"
  "started (resetScore g) = started g"
  "canAnswer (resetScore g) = canAnswer g"
  "awaitingNext (resetScore g) = awaitingNext g"
  "question (resetScore g) = question g"
  "pending (resetScore g) = pending g"
  by (simp_all add: resetScore_def)

lemma stopAndResetToNotStarted_keeps [simp]:
  "webAudio (stopAndResetToNotStarted g) = webAudio g"
  "bufferPromiseCache (stopAndResetToNotStarted g) = bufferPromiseCache g"
  "lastPlayToken (stopAndResetToNotStarted g) = lastPlayToken g"
  "synthFallbackWarned (stopAndResetToNotStarted g) = synthFallbackWarned g"
  "warnings (stopAndResetToNotStarted g) = warnings g"
  "settings (stopAndResetToNotStarted g) = settings g"
  "pending (stopAndResetToNotStarted g) = pending g"
  by (simp_all add: stopAndResetToNotStarted_def Let_def)

lemma resetBtn_click_keeps [simp]:
  "webAudio (resetBtn_click g) = webAudio g"
  "bufferPromiseCache (resetBtn_click g) = bufferPromiseCache g"
  "lastPlayToken (resetBtn_click g) = lastPlayToken g"
  "synthFallbackWarned (resetBtn_click g) = synthFallbackWarned g"
  "warnings (resetBtn_click g) = warnings g"
  "settings (resetBtn_click g) = settings g"
  "pending (resetBtn_click g) = pending g"
  by (simp_all add: resetBtn_click_def)

lemma replayBtn_click_keeps [simp]:
  "webAudio (replayBtn_click g) = webAudio g"
  "bufferPromiseCache (replayBtn_click g) = bufferPromiseCache g"
  "synthFallbackWarned (replayBtn_click g) = synthFallbackWarned g"
  "warnings (replayBtn_click g) = warnings g"
  "score (replayBtn_click g) = score g"
  "settings (replayBtn_click g) = settings g"
  "started (replayBtn_click g) = started g"
  "question (replayBtn_click g) = question g"
  by (simp_all add: replayBtn_click_def)

lemma nextBtn_click_keeps [simp]:
  "webAudio (snd (nextBtn_click r1 r2 g)) = webAudio g"
  "bufferPromiseCache (snd (nextBtn_click r1 r2 g)) = bufferPromiseCache g"
  "lastPlayToken (snd (nextBtn_click r1 r2 g)) = lastPlayToken g"
  "synthFallbackWarned (snd (nextBtn_click r1 r2 g)) = synthFallbackWarned g"
  "warnings (snd (nextBtn_click r1 r2 g)) = warnings g"
  "audio (snd (nextBtn_click r1 r2 g)) = audio g"
  "score (snd (nextBtn_click r1 r2 g)) = score g"
  "settings (snd (nextBtn_click r1 r2 g)) = settings g"
  "started (snd (nextBtn_click r1 r2 g)) = started g"
  by (simp_all add: nextBtn_click_def)

lemma applySettingsAndRestart_keeps [simp]:
  "webAudio (snd (applySettingsAndRestart cv mv rv r1 r2 g)) = webAudio g"
  "bufferPromiseCache (snd (applySettingsAndRestart cv mv rv r1 r2 g)) = bufferPromiseCache g"
  "lastPlayToken (snd (applySettingsAndRestart cv mv rv r1 r2 g)) = lastPlayToken g"
  "synthFallbackWarned (snd (applySettingsAndRestart cv mv rv r1 r2 g)) = synthFallbackWarned g"
  "warnings (snd (applySettingsAndRestart cv mv rv r1 r2 g)) = warnings g"
  "audio (snd (applySettingsAndRestart cv mv rv r1 r2 g)) = audio g"
  by (simp_all add: applySettingsAndRestart_def Let_def)
section \<open>Invariants of every run\<close>

lemma run_invariant:
  assumes "P g" and "\<And>e h. P h \<Longrightarrow> P (step e h)"
  shows "P (run es g)"
  using assms(1) by (induction es arbitrary: g) (simp_all add: assms(2))

lemma run_append: "run (es @ fs) g = run fs (run es g)"
  by (induction es arbitrary: g) simp_all

lemma step_invariant:
  assumes "P g"
    and "\<And>cv mv rv r1 r2 h. P h \<Longrightarrow> P (snd (applySettingsAndRestart cv mv rv r1 r2 h))"
    and "\<And>h. P h \<Longrightarrow> P (resetBtn_click h)"
    and "\<And>h. P h \<Longrightarrow> P (replayBtn_click h)"
    and "\<And>r1 r2 h. P h \<Longrightarrow> P (snd (nextBtn_click r1 r2 h))"
    and "\<And>i ts h. P h \<Longrightarrow> P (snd (onAnswer i ts h))"
    and "\<And>p h. P h \<Longrightarrow> P (h\<lparr>pending := p\<rparr>)"
    and "\<And>h. P h \<Longrightarrow> P (startNewRound_frame h)"
    and "\<And>tok al d now h. P h \<Longrightarrow> P (snd (playCurrentInterval_resumed tok al d now h))"
    and "\<And>tok al t0 r1 r2 now f h.
           P h \<Longrightarrow> P (snd (playCurrentInterval_loaded tok al t0 r1 r2 now f h))"
    and "\<And>tok h. P h \<Longrightarrow> P (enableAnswers tok h)"
  shows "P (step e g)"
proof (cases e)
  case (Resume k now f)
  show ?thesis
  proof (cases "k < length (pending g)")
    case True
    let ?h = "g\<lparr>pending := take k (pending g) @ drop (Suc k) (pending g)\<rparr>"
    have h: "P ?h" using assms(1) by (rule assms(7))
    have "P (run_task (pending g ! k) now f ?h)"
      by (cases "pending g ! k") (simp_all add: h assms(8-11))
    with True Resume show ?thesis by simp
  next
    case False
    with Resume assms(1) show ?thesis by simp
  qed
qed (simp_all add: assms)

lemma playCurrentInterval_token:
  "lastPlayToken (playCurrentInterval al d g)
     = (if \<not> started g \<or> question g = None then lastPlayToken g else lastPlayToken g + 1)"
  by (simp add: playCurrentInterval_def Let_def stopAllAudio_def)

lemma step_token_mono: "lastPlayToken g \<le> lastPlayToken (step e g)"
proof -
  have "n \<le> lastPlayToken g \<Longrightarrow> n \<le> lastPlayToken (step e g)" for n
    by (rule step_invariant [where P = "\<lambda>h. n \<le> lastPlayToken h"])
       (simp_all add: replayBtn_click_def startNewRound_frame_def playCurrentInterval_token)
  then show ?thesis by simp
qed

lemma run_token_mono: "lastPlayToken g \<le> lastPlayToken (run es g)"
proof (induction es arbitrary: g)
  case Nil
  show ?case by simp
next
  case (Cons e es)
  have "lastPlayToken g \<le> lastPlayToken (step e g)" by (rule step_token_mono)
  also have "\<dots> \<le> lastPlayToken (run es (step e g))" by (rule Cons.IH)
  finally show ?case by simp
qed

section \<open>Tokens\<close>

lemma enableAnswers_stale: "tok \<noteq> lastPlayToken h \<Longrightarrow> enableAnswers tok h = h"
  by (simp add: enableAnswers_def)

lemma enableAnswers_sets:
  "canAnswer (enableAnswers tok h) \<Longrightarrow> \<not> canAnswer h \<Longrightarrow> tok = lastPlayToken h"
  by (auto simp: enableAnswers_def split: if_splits)

text \<open>
  C1. When \<open>playCurrentInterval\<close> is invoked twice (both times with the game started and a
  question present, any events in between), each invocation takes the next value of
  \<open>lastPlayToken\<close>, so the second token is strictly larger than the first, and from the
  second invocation on the callback keyed to the first token changes nothing, whatever
  happens later. In any state a callback whose token is not \<open>lastPlayToken\<close> is a no-op,
  a callback that turns \<open>canAnswer\<close> on carries the latest token, and the callback of the
  latest token does turn it on unless the round awaits "next".
\<close>

theorem token_supersession:
  assumes g: "started g" "question g \<noteq> None"
    and h: "started (run es (playCurrentInterval a1 d1 g))"
           "question (run es (playCurrentInterval a1 d1 g)) \<noteq> None"
  shows "(let g1 = playCurrentInterval a1 d1 g;
              h = run es g1;
              g2 = playCurrentInterval a2 d2 h
          in lastPlayToken g1 = lastPlayToken g + 1
           \<and> pending g1 = pending g @ [PlayResume (lastPlayToken g1) a1 d1]
           \<and> lastPlayToken g2 = lastPlayToken h + 1
           \<and> pending g2 = pending h @ [PlayResume (lastPlayToken g2) a2 d2]
           \<and> lastPlayToken g1 < lastPlayToken g2
           \<and> (\<forall>fs. enableAnswers (lastPlayToken g1) (run fs g2) = run fs g2))
       \<and> (\<forall>tok k. tok \<noteq> lastPlayToken k \<longrightarrow> enableAnswers tok k = k)
       \<and> (\<forall>tok k. canAnswer (enableAnswers tok k) \<and> \<not> canAnswer k \<longrightarrow> tok = lastPlayToken k)
       \<and> (\<forall>k. \<not> awaitingNext k \<longrightarrow> canAnswer (enableAnswers (lastPlayToken k) k))"
proof -
  let ?g1 = "playCurrentInterval a1 d1 g"
  let ?h = "run es ?g1"
  let ?g2 = "playCurrentInterval a2 d2 ?h"
  have t1: "lastPlayToken ?g1 = lastPlayToken g + 1"
    using g by (simp add: playCurrentInterval_token)
  have p1: "pending ?g1 = pending g @ [PlayResume (lastPlayToken ?g1) a1 d1]"
    using g by (simp add: playCurrentInterval_def Let_def)
  have t2: "lastPlayToken ?g2 = lastPlayToken ?h + 1"
    using h by (simp add: playCurrentInterval_token)
  have p2: "pending ?g2 = pending ?h @ [PlayResume (lastPlayToken ?g2) a2 d2]"
    using h by (simp add: playCurrentInterval_def Let_def)
  have m: "lastPlayToken ?g1 \<le> lastPlayToken ?h" by (rule run_token_mono)
  have lt: "lastPlayToken ?g1 < lastPlayToken ?g2" using m t2 by simp
  have inert: "enableAnswers (lastPlayToken ?g1) (run fs ?g2) = run fs ?g2" for fs
  proof -
    have "lastPlayToken ?g2 \<le> lastPlayToken (run fs ?g2)" by (rule run_token_mono)
    with lt have "lastPlayToken ?g1 \<noteq> lastPlayToken (run fs ?g2)" by simp
    then show ?thesis by (rule enableAnswers_stale)
  qed
  have latest: "\<forall>k. \<not> awaitingNext k \<longrightarrow> canAnswer (enableAnswers (lastPlayToken k) k)"
    by (simp add: enableAnswers_def)
  show ?thesis
    unfolding Let_def
    using t1 p1 t2 p2 lt inert enableAnswers_stale enableAnswers_sets latest by blast
qed

theorem token_supersession_witness:
  "started demo_begun \<and> question demo_begun \<noteq> None
   \<and> lastPlayToken demo_begun = 0
   \<and> lastPlayToken (playCurrentInterval True (1 / 4) demo_begun) = 1
   \<and> lastPlayToken (playCurrentInterval True 0 (playCurrentInterval True (1 / 4) demo_begun)) = 2
   \<and> pending (run [Resume 0 0 noSamples, Resume 0 0 noSamples, Resume 0 0 noSamples,
                    Resume 0 0 noSamples]
        (playCurrentInterval True 0 (playCurrentInterval True (1 / 4) demo_begun)))
       = [EnableTimer 1 280, EnableTimer 2 30]
   \<and> enableAnswers 1
        (run [Resume 0 0 noSamples, Resume 0 0 noSamples, Resume 0 0 noSamples,
              Resume 0 0 noSamples]
          (playCurrentInterval True 0 (playCurrentInterval True (1 / 4) demo_begun)))
       = run [Resume 0 0 noSamples, Resume 0 0 noSamples, Resume 0 0 noSamples,
              Resume 0 0 noSamples]
          (playCurrentInterval True 0 (playCurrentInterval True (1 / 4) demo_begun))
   \<and> canAnswer (enableAnswers 2
        (run [Resume 0 0 noSamples, Resume 0 0 noSamples, Resume 0 0 noSamples,
              Resume 0 0 noSamples]
          (playCurrentInterval True 0 (playCurrentInterval True (1 / 4) demo_begun))))"
proof -
  let ?fs = "[Resume 0 0 noSamples, Resume 0 0 noSamples, Resume 0 0 noSamples,
              Resume 0 0 noSamples]"
  let ?g1 = "playCurrentInterval True (1 / 4) demo_begun"
  let ?g2 = "playCurrentInterval True 0 ?g1"
  have a: "started demo_begun" "question demo_begun \<noteq> None" "lastPlayToken demo_begun = 0"
    by code_simp+
  have b: "started (run [] ?g1)" "question (run [] ?g1) \<noteq> None"
    by code_simp+
  have c: "pending (run ?fs ?g2) = [EnableTimer 1 280, EnableTimer 2 30]" by code_simp
  have d: "canAnswer (enableAnswers 2 (run ?fs ?g2))" by code_simp
  note T = token_supersession [OF a(1,2) b, of True 0, unfolded Let_def run.simps(1)]
  from T have "lastPlayToken ?g1 = lastPlayToken demo_begun + 1" by blast
  with a(3) have t1: "lastPlayToken ?g1 = 1" by simp
  from T have "lastPlayToken ?g2 = lastPlayToken ?g1 + 1" by blast
  with t1 have t2: "lastPlayToken ?g2 = 2" by simp
  from T have "enableAnswers (lastPlayToken ?g1) (run ?fs ?g2) = run ?fs ?g2" by blast
  with t1 have e: "enableAnswers 1 (run ?fs ?g2) = run ?fs ?g2" by simp
  from a t1 t2 c d e show ?thesis by blast
qed

section \<open>When answering is enabled\<close>

lemma playNote_question:
  "question g = Some q \<Longrightarrow> playNote a sel w g = (None, emit (noteCmd a (sel q) w) g)"
  by (simp add: playNote_def noteCmd_def split: option.splits)

lemma playCurrentInterval_loaded_result:
  assumes q: "question g = Some q"
  shows "fst (playCurrentInterval_loaded tok al t0 req1 req2 now fetchOk g) = None"
    and "pending (snd (playCurrentInterval_loaded tok al t0 req1 req2 now fetchOk g))
          = pending g @ (if al then [EnableTimer tok (startInMs t0 now)] else [])"
    and "audio (snd (playCurrentInterval_loaded tok al t0 req1 req2 now fetchOk g))
          = audio g @
            [noteCmd (fst (loadPitchBuffer_done fetchOk req1 g)) (rootPitch q) t0,
             noteCmd (fst (loadPitchBuffer_done fetchOk req2
                             (snd (loadPitchBuffer_done fetchOk req1 g))))
               (highPitch q) (t0 + NOTE_PLAY_SEC + GAP_SEC)]"
  using q
  by (simp_all add: playCurrentInterval_loaded_def Let_def split_beta playNote_question emit_def
      split: option.splits)

lemma startInMs_near:
  "now \<le> t0 \<Longrightarrow> \<bar>now + real_of_int (startInMs t0 now) / 1000 - t0\<bar> \<le> 1 / 2000"
proof -
  assume le: "now \<le> t0"
  define x where "x = (t0 - now) * 1000"
  have x0: "0 \<le> x" using le by (simp add: x_def)
  have f0: "0 \<le> \<lfloor>x + 1 / 2\<rfloor>" using x0 by simp
  have ms: "startInMs t0 now = \<lfloor>x + 1 / 2\<rfloor>"
    using f0 by (simp add: startInMs_def mathRound_def x_def)
  have "real_of_int \<lfloor>x + 1 / 2\<rfloor> \<le> x + 1 / 2" by (rule of_int_floor_le)
  moreover have "x + 1 / 2 < real_of_int \<lfloor>x + 1 / 2\<rfloor> + 1" by linarith
  ultimately have b: "\<bar>real_of_int \<lfloor>x + 1 / 2\<rfloor> - x\<bar> \<le> 1 / 2" by linarith
  have eq: "now + real_of_int \<lfloor>x + 1 / 2\<rfloor> / 1000 - t0
              = (real_of_int \<lfloor>x + 1 / 2\<rfloor> - x) / 1000"
    by (simp add: x_def field_simps)
  have "\<bar>(real_of_int \<lfloor>x + 1 / 2\<rfloor> - x) / 1000\<bar> = \<bar>real_of_int \<lfloor>x + 1 / 2\<rfloor> - x\<bar> / 1000"
    by simp
  also have "\<dots> \<le> (1 / 2) / 1000" using b by (intro divide_right_mono) simp_all
  finally show ?thesis unfolding ms eq by simp
qed

lemma startInMs_late: "t0 \<le> now \<Longrightarrow> startInMs t0 now = 0"
proof -
  assume "t0 \<le> now"
  then have "(t0 - now) * 1000 + 1 / 2 < 1" by simp
  then have "\<lfloor>(t0 - now) * 1000 + 1 / 2\<rfloor> \<le> 0" by (simp add: floor_less_iff)
  then show ?thesis by (simp add: startInMs_def mathRound_def)
qed

text \<open>
  C2, as the script has it. When the two loads of a playback with \<open>allowAnswerAfter\<close> have
  settled (and the question is still there), the script arms one timer, keyed to the
  playback's token, with the delay \<open>startInMs = max(0, round((t0 - ctx.currentTime) * 1000))\<close>
  milliseconds, and schedules the first note at \<open>t0\<close> and the second at
  \<open>t0 + NOTE_PLAY_SEC + GAP_SEC = t0 + 1.33\<close>. So the timer is due at the start offset
  \<open>t0\<close> of the schedule, when the first note starts (within half a millisecond, or at once
  when \<open>t0\<close> has passed), not \<open>NOTE_PLAY_SEC + GAP_SEC\<close> later. For a round begun by
  start or next, \<open>t0\<close> is the audio time at scheduling plus \<open>0.03 + 0.25\<close> seconds.
\<close>

theorem enable_timer_at_schedule_start:
  assumes q: "question g = Some q"
  shows "fst (playCurrentInterval_loaded tok True t0 req1 req2 now fetchOk g) = None
    \<and> pending (snd (playCurrentInterval_loaded tok True t0 req1 req2 now fetchOk g))
        = pending g @ [EnableTimer tok (startInMs t0 now)]
    \<and> audio (snd (playCurrentInterval_loaded tok True t0 req1 req2 now fetchOk g))
        = audio g @
          [noteCmd (fst (loadPitchBuffer_done fetchOk req1 g)) (rootPitch q) t0,
           noteCmd (fst (loadPitchBuffer_done fetchOk req2
                           (snd (loadPitchBuffer_done fetchOk req1 g))))
             (highPitch q) (t0 + NOTE_PLAY_SEC + GAP_SEC)]
    \<and> startInMs t0 now = max 0 \<lfloor>(t0 - now) * 1000 + 1 / 2\<rfloor>
    \<and> (now \<le> t0 \<longrightarrow> \<bar>now + real_of_int (startInMs t0 now) / 1000 - t0\<bar> \<le> 1 / 2000)
    \<and> (t0 \<le> now \<longrightarrow> startInMs t0 now = 0)
    \<and> NOTE_PLAY_SEC + GAP_SEC = 133 / 100
    \<and> (webAudio g \<longrightarrow>
         pending (snd (playCurrentInterval_resumed tok True ROUND_START_DELAY_SEC now0 g))
           = pending g @ [PlayLoad tok True (now0 + 28 / 100)
                            (loadPitchBuffer_url (rootPitch q))
                            (loadPitchBuffer_url (highPitch q))])"
proof -
  have r: "webAudio g \<longrightarrow>
         pending (snd (playCurrentInterval_resumed tok True ROUND_START_DELAY_SEC now0 g))
           = pending g @ [PlayLoad tok True (now0 + 28 / 100)
                            (loadPitchBuffer_url (rootPitch q))
                            (loadPitchBuffer_url (highPitch q))]"
    using q by (simp add: playCurrentInterval_resumed_def Let_def ROUND_START_DELAY_SEC_def)
  have c: "NOTE_PLAY_SEC + GAP_SEC = 133 / 100" by (simp add: NOTE_PLAY_SEC_def GAP_SEC_def)
  have m: "startInMs t0 now = max 0 \<lfloor>(t0 - now) * 1000 + 1 / 2\<rfloor>"
    by (simp add: startInMs_def mathRound_def)
  show ?thesis
    using playCurrentInterval_loaded_result [OF q, of tok True t0 req1 req2 now fetchOk]
      startInMs_near [of now t0] startInMs_late [of t0 now] r c m
    by simp
qed

theorem enable_timer_at_schedule_start_witness:
  "question demo_begun
     = Some \<lparr>rootPitch = 48, highPitch = 50, interval = mk_interval ''M2'' ''major second'' 2\<rparr>
   \<and> pending (snd (playCurrentInterval_loaded 1 True (28 / 100) (Some ''audio/c4.mp3'', 48)
                     (Some ''audio/d4.mp3'', 50) 0 noSamples demo_begun))
       = [EnableTimer 1 280]
   \<and> audio (snd (playCurrentInterval_loaded 1 True (28 / 100) (Some ''audio/c4.mp3'', 48)
                   (Some ''audio/d4.mp3'', 50) 0 noSamples demo_begun))
       = [SynthNote 48 (28 / 100) (115 / 100) (8 / 100) (25 / 100),
          SynthNote 50 (161 / 100) (115 / 100) (8 / 100) (25 / 100)]"
proof -
  have a: "question demo_begun
     = Some \<lparr>rootPitch = 48, highPitch = 50, interval = mk_interval ''M2'' ''major second'' 2\<rparr>"
    by code_simp
  have p: "pending demo_begun = []" "audio demo_begun = []" by code_simp+
  have s: "startInMs (28 / 100) 0 = 280" by code_simp
  have n1: "noteCmd (fst (loadPitchBuffer_done noSamples (Some ''audio/c4.mp3'', 48) demo_begun))
              48 (28 / 100) = SynthNote 48 (28 / 100) (115 / 100) (8 / 100) (25 / 100)"
    by code_simp
  have n2: "noteCmd (fst (loadPitchBuffer_done noSamples (Some ''audio/d4.mp3'', 50)
                (snd (loadPitchBuffer_done noSamples (Some ''audio/c4.mp3'', 48) demo_begun))))
              50 (28 / 100 + NOTE_PLAY_SEC + GAP_SEC)
            = SynthNote 50 (161 / 100) (115 / 100) (8 / 100) (25 / 100)"
    by code_simp
  note T = enable_timer_at_schedule_start [OF a, of 1 "28 / 100" "(Some ''audio/c4.mp3'', 48)"
      "(Some ''audio/d4.mp3'', 50)" 0 noSamples 0]
  from T have "pending (snd (playCurrentInterval_loaded 1 True (28 / 100) (Some ''audio/c4.mp3'', 48)
                     (Some ''audio/d4.mp3'', 50) 0 noSamples demo_begun))
       = pending demo_begun @ [EnableTimer 1 (startInMs (28 / 100) 0)]" by blast
  then have t1: "pending (snd (playCurrentInterval_loaded 1 True (28 / 100) (Some ''audio/c4.mp3'', 48)
                     (Some ''audio/d4.mp3'', 50) 0 noSamples demo_begun))
       = [EnableTimer 1 280]" by (simp only: p s append_Nil)
  from T have "audio (snd (playCurrentInterval_loaded 1 True (28 / 100) (Some ''audio/c4.mp3'', 48)
                   (Some ''audio/d4.mp3'', 50) 0 noSamples demo_begun))
       = audio demo_begun @
          [noteCmd (fst (loadPitchBuffer_done noSamples (Some ''audio/c4.mp3'', 48) demo_begun))
             (rootPitch \<lparr>rootPitch = 48, highPitch = 50, interval = mk_interval ''M2'' ''major second'' 2\<rparr>) (28 / 100),
           noteCmd (fst (loadPitchBuffer_done noSamples (Some ''audio/d4.mp3'', 50)
                (snd (loadPitchBuffer_done noSamples (Some ''audio/c4.mp3'', 48) demo_begun))))
             (highPitch \<lparr>rootPitch = 48, highPitch = 50, interval = mk_interval ''M2'' ''major second'' 2\<rparr>) (28 / 100 + NOTE_PLAY_SEC + GAP_SEC)]"
    by blast
  then have t2: "audio (snd (playCurrentInterval_loaded 1 True (28 / 100) (Some ''audio/c4.mp3'', 48)
                   (Some ''audio/d4.mp3'', 50) 0 noSamples demo_begun))
       = [SynthNote 48 (28 / 100) (115 / 100) (8 / 100) (25 / 100),
          SynthNote 50 (161 / 100) (115 / 100) (8 / 100) (25 / 100)]"
    using n1 n2 p by simp
  from a t1 t2 show ?thesis by blast
qed

text \<open>
  C2 as the specification states it (answering enabled when the second note starts, not
  earlier) fails in the sample session. The round's playback is scheduled at audio
  time 0 with start offset \<open>t0 = 0.28\<close>; the second note starts at 1.61. The timer is set
  to 280 ms, and when it runs, at 0.28, answering is enabled: 1.33 seconds before the
  second note starts.
\<close>

theorem enable_before_second_note:
  "pending demo_listening = [EnableTimer 1 280]
   \<and> audio demo_listening
       = [StopUiSounds, StopNotes (8 / 100),
          SynthNote 48 (28 / 100) (115 / 100) (8 / 100) (25 / 100),
          SynthNote 50 (161 / 100) (115 / 100) (8 / 100) (25 / 100)]
   \<and> \<not> canAnswer demo_listening
   \<and> canAnswer (step (Resume 0 (28 / 100) noSamples) demo_listening)
   \<and> phaseOf (step (Resume 0 (28 / 100) noSamples) demo_listening) = AwaitingAnswer
   \<and> \<not> (28 / 100 + NOTE_PLAY_SEC + GAP_SEC \<le> 0 + real_of_int 280 / 1000)"
  by code_simp

section \<open>Answers and the score\<close>

lemma onAnswer_refused:
  "\<not> started g \<or> question g = None \<or> \<not> canAnswer g \<or> awaitingNext g
     \<Longrightarrow> onAnswer i ts g = (None, g)"
  by (auto simp: onAnswer_def split: option.splits)

lemma phaseOf_AwaitingAnswer:
  "phaseOf g = AwaitingAnswer
     \<longleftrightarrow> started g \<and> question g \<noteq> None \<and> canAnswer g \<and> \<not> awaitingNext g"
  by (auto simp: phaseOf_def)

lemma onAnswer_accepted:
  assumes "started g" "question g = Some q" "canAnswer g" "\<not> awaitingNext g"
    and "i < length IVL_ALL"
  shows "onAnswer i ts g =
    (None,
     g\<lparr>audio := audio g @
         [UiSound (AUDIO_DIR @ ''/'' @
            (if code (IVL_ALL ! i) = code (interval q) then SND_CORRECT else SND_INCORRECT))],
       score :=
         \<lparr>asked = asked (score g) + 1,
          correct = correct (score g)
            + (if code (IVL_ALL ! i) = code (interval q) then 1 else 0),
          incorrect = incorrect (score g)
            + (if code (IVL_ALL ! i) = code (interval q) then 0 else 1),
          streak = (if code (IVL_ALL ! i) = code (interval q) then streak (score g) + 1 else 0),
          longest = (if code (IVL_ALL ! i) = code (interval q)
                     then max (longest (score g)) (streak (score g) + 1)
                     else longest (score g)),
          history = history (score g) @
            [\<lparr>ev_ts = ts, ev_root = pitchLabel (rootPitch q),
              ev_high = pitchLabel (highPitch q), ev_interval = code (interval q),
              ev_guess = code (IVL_ALL ! i),
              ev_correct = (code (IVL_ALL ! i) = code (interval q)),
              ev_mode = rootMode (settings g),
              ev_intervalCount = intervalCount (settings g)\<rparr>]\<rparr>,
       canAnswer := False, awaitingNext := True\<rparr>)"
  using assms
  by (simp add: onAnswer_def Let_def lockAfterAnswer_def playUiSound_def emit_def)

lemma onAnswer_thrown:
  assumes "started g" "question g = Some q" "canAnswer g" "\<not> awaitingNext g"
    and "length IVL_ALL \<le> i"
  shows "onAnswer i ts g = (Some TypeError, g\<lparr>score := (score g)\<lparr>asked := asked (score g) + 1\<rparr>\<rparr>)"
  using assms by (simp add: onAnswer_def Let_def)

text \<open>
  C6. \<open>onAnswer\<close> returns at once, changing nothing, when the game has not started, there is
  no question, answering is not enabled or the round awaits "next": that is, in every phase
  but AwaitingAnswer. In that phase, for each index \<open>i\<close> of a button (\<open>i < 12\<close>), it appends
  exactly one event to the history, adds 1 to \<open>asked\<close>, adds 1 to \<open>correct\<close> or to
  \<open>incorrect\<close>, increments the streak (raising \<open>longest\<close> to it) or resets it to 0, and
  leaves the round Locked: \<open>canAnswer\<close> false and \<open>awaitingNext\<close> true.
\<close>

theorem onAnswer_gate:
  "(\<not> started g \<or> question g = None \<or> \<not> canAnswer g \<or> awaitingNext g
      \<longrightarrow> onAnswer i ts g = (None, g))
   \<and> (phaseOf g \<noteq> AwaitingAnswer \<longrightarrow> onAnswer i ts g = (None, g))
   \<and> (started g \<and> question g = Some q \<and> canAnswer g \<and> \<not> awaitingNext g
        \<and> i < length IVL_ALL \<longrightarrow>
       (let g' = snd (onAnswer i ts g);
            ok = (code (IVL_ALL ! i) = code (interval q))
        in phaseOf g = AwaitingAnswer
         \<and> fst (onAnswer i ts g) = None
         \<and> (\<exists>ev. history (score g') = history (score g) @ [ev]
                \<and> ev_correct ev = ok \<and> ev_guess ev = code (IVL_ALL ! i)
                \<and> ev_interval ev = code (interval q) \<and> ev_ts ev = ts)
         \<and> length (history (score g')) = length (history (score g)) + 1
         \<and> asked (score g') = asked (score g) + 1
         \<and> correct (score g') = correct (score g) + (if ok then 1 else 0)
         \<and> incorrect (score g') = incorrect (score g) + (if ok then 0 else 1)
         \<and> streak (score g') = (if ok then streak (score g) + 1 else 0)
         \<and> longest (score g')
             = (if ok then max (longest (score g)) (streak (score g) + 1) else longest (score g))
         \<and> \<not> canAnswer g' \<and> awaitingNext g' \<and> phaseOf g' = Locked
         \<and> question g' = question g \<and> pending g' = pending g))"
proof -
  have a: "\<not> started g \<or> question g = None \<or> \<not> canAnswer g \<or> awaitingNext g
      \<longrightarrow> onAnswer i ts g = (None, g)"
    using onAnswer_refused by blast
  have b: "phaseOf g \<noteq> AwaitingAnswer \<longrightarrow> onAnswer i ts g = (None, g)"
    using onAnswer_refused [of g i ts] by (auto simp: phaseOf_AwaitingAnswer)
  have c: "started g \<and> question g = Some q \<and> canAnswer g \<and> \<not> awaitingNext g
        \<and> i < length IVL_ALL \<longrightarrow>
       (let g' = snd (onAnswer i ts g);
            ok = (code (IVL_ALL ! i) = code (interval q))
        in phaseOf g = AwaitingAnswer
         \<and> fst (onAnswer i ts g) = None
         \<and> (\<exists>ev. history (score g') = history (score g) @ [ev]
                \<and> ev_correct ev = ok \<and> ev_guess ev = code (IVL_ALL ! i)
                \<and> ev_interval ev = code (interval q) \<and> ev_ts ev = ts)
         \<and> length (history (score g')) = length (history (score g)) + 1
         \<and> asked (score g') = asked (score g) + 1
         \<and> correct (score g') = correct (score g) + (if ok then 1 else 0)
         \<and> incorrect (score g') = incorrect (score g) + (if ok then 0 else 1)
         \<and> streak (score g') = (if ok then streak (score g) + 1 else 0)
         \<and> longest (score g')
             = (if ok then max (longest (score g)) (streak (score g) + 1) else longest (score g))
         \<and> \<not> canAnswer g' \<and> awaitingNext g' \<and> phaseOf g' = Locked
         \<and> question g' = question g \<and> pending g' = pending g)"
  proof
    assume h: "started g \<and> question g = Some q \<and> canAnswer g \<and> \<not> awaitingNext g
        \<and> i < length IVL_ALL"
    then have eq: "onAnswer i ts g = (None,
     g\<lparr>audio := audio g @
         [UiSound (AUDIO_DIR @ ''/'' @
            (if code (IVL_ALL ! i) = code (interval q) then SND_CORRECT else SND_INCORRECT))],
       score :=
         \<lparr>asked = asked (score g) + 1,
          correct = correct (score g)
            + (if code (IVL_ALL ! i) = code (interval q) then 1 else 0),
          incorrect = incorrect (score g)
            + (if code (IVL_ALL ! i) = code (interval q) then 0 else 1),
          streak = (if code (IVL_ALL ! i) = code (interval q) then streak (score g) + 1 else 0),
          longest = (if code (IVL_ALL ! i) = code (interval q)
                     then max (longest (score g)) (streak (score g) + 1)
                     else longest (score g)),
          history = history (score g) @
            [\<lparr>ev_ts = ts, ev_root = pitchLabel (rootPitch q),
              ev_high = pitchLabel (highPitch q), ev_interval = code (interval q),
              ev_guess = code (IVL_ALL ! i),
              ev_correct = (code (IVL_ALL ! i) = code (interval q)),
              ev_mode = rootMode (settings g),
              ev_intervalCount = intervalCount (settings g)\<rparr>]\<rparr>,
       canAnswer := False, awaitingNext := True\<rparr>)"
      by (intro onAnswer_accepted) simp_all
    from h have p: "phaseOf g = AwaitingAnswer" by (simp add: phaseOf_AwaitingAnswer)
    from h show "(let g' = snd (onAnswer i ts g);
            ok = (code (IVL_ALL ! i) = code (interval q))
        in phaseOf g = AwaitingAnswer
         \<and> fst (onAnswer i ts g) = None
         \<and> (\<exists>ev. history (score g') = history (score g) @ [ev]
                \<and> ev_correct ev = ok \<and> ev_guess ev = code (IVL_ALL ! i)
                \<and> ev_interval ev = code (interval q) \<and> ev_ts ev = ts)
         \<and> length (history (score g')) = length (history (score g)) + 1
         \<and> asked (score g') = asked (score g) + 1
         \<and> correct (score g') = correct (score g) + (if ok then 1 else 0)
         \<and> incorrect (score g') = incorrect (score g) + (if ok then 0 else 1)
         \<and> streak (score g') = (if ok then streak (score g) + 1 else 0)
         \<and> longest (score g')
             = (if ok then max (longest (score g)) (streak (score g) + 1) else longest (score g))
         \<and> \<not> canAnswer g' \<and> awaitingNext g' \<and> phaseOf g' = Locked
         \<and> question g' = question g \<and> pending g' = pending g)"
      unfolding eq Let_def by (simp add: p phaseOf_def)
  qed
  from a b c show ?thesis by blast
qed

theorem onAnswer_gate_witness:
  "onAnswer 1 ''2026-01-01T00:00:00.000Z'' (init_game True) = (None, init_game True)
   \<and> onAnswer 1 ''2026-01-01T00:00:00.000Z'' demo_listening = (None, demo_listening)
   \<and> onAnswer 1 ''2026-01-01T00:00:00.000Z'' demo_locked = (None, demo_locked)
   \<and> phaseOf demo_awaiting = AwaitingAnswer
   \<and> history (score demo_awaiting) = []
   \<and> length (history (score (snd (onAnswer 1 ''2026-01-01T00:00:00.000Z'' demo_awaiting)))) = 1
   \<and> asked (score (snd (onAnswer 1 ''2026-01-01T00:00:00.000Z'' demo_awaiting))) = 1
   \<and> correct (score (snd (onAnswer 1 ''2026-01-01T00:00:00.000Z'' demo_awaiting))) = 1
   \<and> streak (score (snd (onAnswer 1 ''2026-01-01T00:00:00.000Z'' demo_awaiting))) = 1
   \<and> phaseOf (snd (onAnswer 1 ''2026-01-01T00:00:00.000Z'' demo_awaiting)) = Locked"
proof -
  let ?ts = "''2026-01-01T00:00:00.000Z''"
  let ?q = "\<lparr>rootPitch = 48, highPitch = 50,
             interval = mk_interval ''M2'' ''major second'' 2\<rparr> :: int question"
  have n: "\<not> started (init_game True)" "\<not> canAnswer demo_listening" "awaitingNext demo_locked"
    by code_simp+
  have a: "started demo_awaiting" "question demo_awaiting = Some ?q" "canAnswer demo_awaiting"
    "\<not> awaitingNext demo_awaiting" "(1::nat) < length IVL_ALL"
    by code_simp+
  have z: "history (score demo_awaiting) = []" "asked (score demo_awaiting) = 0"
    "correct (score demo_awaiting) = 0" "streak (score demo_awaiting) = 0"
    by code_simp+
  have ok: "code (IVL_ALL ! 1) = code (interval ?q)" by code_simp
  have r1: "onAnswer 1 ?ts (init_game True) = (None, init_game True)"
    using onAnswer_gate [of "init_game True" 1 ?ts ?q] n(1) by blast
  have r2: "onAnswer 1 ?ts demo_listening = (None, demo_listening)"
    using onAnswer_gate [of demo_listening 1 ?ts ?q] n(2) by blast
  have r3: "onAnswer 1 ?ts demo_locked = (None, demo_locked)"
    using onAnswer_gate [of demo_locked 1 ?ts ?q] n(3) by blast
  note T = onAnswer_gate [of demo_awaiting 1 ?ts ?q, unfolded Let_def]
  from T a have p: "phaseOf demo_awaiting = AwaitingAnswer" by blast
  from T a have "length (history (score (snd (onAnswer 1 ?ts demo_awaiting))))
      = length (history (score demo_awaiting)) + 1" by blast
  with z have l: "length (history (score (snd (onAnswer 1 ?ts demo_awaiting)))) = 1" by simp
  from T a have "asked (score (snd (onAnswer 1 ?ts demo_awaiting)))
      = asked (score demo_awaiting) + 1" by blast
  with z have k: "asked (score (snd (onAnswer 1 ?ts demo_awaiting))) = 1" by simp
  from T a have "correct (score (snd (onAnswer 1 ?ts demo_awaiting)))
      = correct (score demo_awaiting) + (if code (IVL_ALL ! 1) = code (interval ?q) then 1 else 0)"
    by blast
  with z ok have c: "correct (score (snd (onAnswer 1 ?ts demo_awaiting))) = 1" by simp
  from T a have "streak (score (snd (onAnswer 1 ?ts demo_awaiting)))
      = (if code (IVL_ALL ! 1) = code (interval ?q) then streak (score demo_awaiting) + 1 else 0)"
    by blast
  with z ok have s: "streak (score (snd (onAnswer 1 ?ts demo_awaiting))) = 1" by simp
  from T a have ph: "phaseOf (snd (onAnswer 1 ?ts demo_awaiting)) = Locked" by blast
  from r1 r2 r3 p z(1) l k c s ph show ?thesis by blast
qed

section \<open>The streak\<close>

lemma trailingRun_Nil: "trailingRun [] = 0"
  by (simp add: trailingRun_def)

lemma trailingRun_snoc: "trailingRun (bs @ [b]) = (if b then trailingRun bs + 1 else 0)"
  by (simp add: trailingRun_def)

lemma foldr_max_start: "foldr max xs (y::nat) = max (foldr max xs 0) y"
  by (induction xs) auto

lemma runningMax_Nil: "runningMax [] = 0"
  by (simp add: runningMax_def trailingRun_def)

lemma runningMax_snoc: "runningMax (bs @ [b]) = max (runningMax bs) (trailingRun (bs @ [b]))"
proof -
  have m: "map (\<lambda>k. trailingRun (take k (bs @ [b]))) [0..<Suc (length bs)]
         = map (\<lambda>k. trailingRun (take k bs)) [0..<Suc (length bs)]"
    by (rule map_cong) auto
  have "runningMax (bs @ [b])
      = foldr max (map (\<lambda>k. trailingRun (take k (bs @ [b]))) [0..<Suc (length bs)])
          (max (trailingRun (bs @ [b])) 0)"
    by (simp add: runningMax_def del: upt_Suc add: upt_Suc_append)
  also have "\<dots> = max (runningMax bs) (trailingRun (bs @ [b]))"
    unfolding m by (subst foldr_max_start) (simp add: runningMax_def)
  finally show ?thesis .
qed

lemma trailingRun_le_runningMax: "trailingRun bs \<le> runningMax bs"
  by (cases bs rule: rev_cases) (simp_all add: trailingRun_Nil runningMax_snoc)

lemma onAnswer_streak:
  assumes "streak (score g) = trailingRun (outcomes g)"
    and "longest (score g) = runningMax (outcomes g)"
  shows "streak (score (snd (onAnswer i ts g))) = trailingRun (outcomes (snd (onAnswer i ts g)))
       \<and> longest (score (snd (onAnswer i ts g))) = runningMax (outcomes (snd (onAnswer i ts g)))"
proof (cases "started g \<and> question g \<noteq> None \<and> canAnswer g \<and> \<not> awaitingNext g")
  case False
  then have "onAnswer i ts g = (None, g)" by (intro onAnswer_refused) auto
  with assms show ?thesis by simp
next
  case True
  then obtain q where q: "question g = Some q" by auto
  show ?thesis
  proof (cases "i < length IVL_ALL")
    case False
    then have "onAnswer i ts g
        = (Some TypeError, g\<lparr>score := (score g)\<lparr>asked := asked (score g) + 1\<rparr>\<rparr>)"
      using True q by (intro onAnswer_thrown) simp_all
    with assms show ?thesis by (simp add: outcomes_def)
  next
    case i: True
    show ?thesis
      using assms
      by (simp add: onAnswer_accepted [of g q i ts] True q i outcomes_def trailingRun_snoc
          runningMax_snoc)
  qed
qed

lemma step_streak:
  assumes "streak (score g) = trailingRun (outcomes g) \<and> longest (score g) = runningMax (outcomes g)"
  shows "streak (score (step e g)) = trailingRun (outcomes (step e g))
       \<and> longest (score (step e g)) = runningMax (outcomes (step e g))"
  using assms
proof (rule step_invariant [where P = "\<lambda>h. streak (score h) = trailingRun (outcomes h)
       \<and> longest (score h) = runningMax (outcomes h)"], goal_cases)
  case (1 cv mv rv r1 r2 h)
  show ?case
    by (simp add: outcomes_def applySettingsAndRestart_def Let_def resetScore_def
        resetScore_value_def trailingRun_Nil runningMax_Nil)
next
  case (2 h)
  show ?case
    by (simp add: outcomes_def resetBtn_click_def stopAndResetToNotStarted_def Let_def
        resetScore_def resetScore_value_def trailingRun_Nil runningMax_Nil)
next
  case (5 i ts h)
  then show ?case using onAnswer_streak by blast
qed (simp_all add: outcomes_def startNewRound_frame_def)

text \<open>
  C7. Start from any state whose score is the reset score and let any events happen. Then
  \<open>streak\<close> is the length of the run of correct answers at the end of the outcomes recorded
  since, \<open>longest\<close> is the greatest value that run has had, and so \<open>streak \<le> longest\<close>.
  Each accepted answer appends its outcome, increments the streak when correct, resets it to
  0 when incorrect, and leaves \<open>longest\<close> the maximum of its old value and the new streak.
\<close>

theorem streak_invariant:
  assumes "score g = resetScore_value"
  shows "streak (score (run es g)) = trailingRun (outcomes (run es g))
       \<and> longest (score (run es g)) = runningMax (outcomes (run es g))
       \<and> streak (score (run es g)) \<le> longest (score (run es g))
       \<and> (\<forall>k q i ts. started k \<and> question k = Some q \<and> canAnswer k \<and> \<not> awaitingNext k
              \<and> i < length IVL_ALL \<longrightarrow>
            outcomes (snd (onAnswer i ts k))
              = outcomes k @ [code (IVL_ALL ! i) = code (interval q)]
            \<and> streak (score (snd (onAnswer i ts k)))
              = (if code (IVL_ALL ! i) = code (interval q) then streak (score k) + 1 else 0)
            \<and> longest (score (snd (onAnswer i ts k)))
              = max (longest (score k)) (streak (score (snd (onAnswer i ts k)))))"
proof -
  have init: "streak (score g) = trailingRun (outcomes g)
       \<and> longest (score g) = runningMax (outcomes g)"
    using assms by (simp add: outcomes_def resetScore_value_def trailingRun_Nil runningMax_Nil)
  have inv: "streak (score (run es g)) = trailingRun (outcomes (run es g))
       \<and> longest (score (run es g)) = runningMax (outcomes (run es g))"
    using init
    by (rule run_invariant [where P = "\<lambda>h. streak (score h) = trailingRun (outcomes h)
       \<and> longest (score h) = runningMax (outcomes h)"]) (rule step_streak)
  then have le: "streak (score (run es g)) \<le> longest (score (run es g))"
    by (simp add: trailingRun_le_runningMax)
  have one: "\<forall>k q i ts. started k \<and> question k = Some q \<and> canAnswer k \<and> \<not> awaitingNext k
              \<and> i < length IVL_ALL \<longrightarrow>
            outcomes (snd (onAnswer i ts k))
              = outcomes k @ [code (IVL_ALL ! i) = code (interval q)]
            \<and> streak (score (snd (onAnswer i ts k)))
              = (if code (IVL_ALL ! i) = code (interval q) then streak (score k) + 1 else 0)
            \<and> longest (score (snd (onAnswer i ts k)))
              = max (longest (score k)) (streak (score (snd (onAnswer i ts k))))"
    by (auto simp: onAnswer_accepted outcomes_def)
  from inv le one show ?thesis by blast
qed

theorem streak_invariant_witness:
  "score (init_game True) = resetScore_value
   \<and> outcomes (run demo_four_rounds (init_game True)) = [True, True, False, True]
   \<and> trailingRun [True, True, False, True] = 1
   \<and> runningMax [True, True, False, True] = 2
   \<and> streak (score (run demo_four_rounds (init_game True))) = 1
   \<and> longest (score (run demo_four_rounds (init_game True))) = 2"
proof -
  have a: "score (init_game True) = resetScore_value" by code_simp
  have o: "outcomes (run demo_four_rounds (init_game True)) = [True, True, False, True]"
    by code_simp
  have t: "trailingRun [True, True, False, True] = 1" "runningMax [True, True, False, True] = 2"
    by code_simp+
  note T = streak_invariant [OF a, of demo_four_rounds]
  from T have "streak (score (run demo_four_rounds (init_game True)))
      = trailingRun (outcomes (run demo_four_rounds (init_game True)))" by blast
  then have s: "streak (score (run demo_four_rounds (init_game True))) = 1"
    by (simp only: o t)
  from T have "longest (score (run demo_four_rounds (init_game True)))
      = runningMax (outcomes (run demo_four_rounds (init_game True)))" by blast
  then have l: "longest (score (run demo_four_rounds (init_game True))) = 2"
    by (simp only: o t)
  from a o t s l show ?thesis by blast
qed

section \<open>Reset\<close>

lemma resetBtn_click_result:
  "phaseOf (resetBtn_click g) = NotStarted
   \<and> \<not> started (resetBtn_click g) \<and> \<not> canAnswer (resetBtn_click g)
   \<and> \<not> awaitingNext (resetBtn_click g)
   \<and> question (resetBtn_click g) = None
   \<and> score (resetBtn_click g) = resetScore_value
   \<and> lastPlayToken (resetBtn_click g) = lastPlayToken g
   \<and> pending (resetBtn_click g) = pending g"
  by (simp add: resetBtn_click_def stopAndResetToNotStarted_def Let_def resetScore_def
      phaseOf_def)

text \<open>
  C3. Reset does put the script in NotStarted with no question and the reset score, but it
  neither clears the waiting timers nor takes a new token. In the sample session the player
  resets while the first round's timer waits: the timer's token is still the latest, and
  when the timer runs it sets \<open>canAnswer\<close> to true. If the player has begun a new game
  before the timer runs (and before the new round's playback is scheduled), the stale timer
  opens the new question for answers and an answer is accepted, though no note of the new
  round has been scheduled.
\<close>

theorem reset_keeps_timer_live:
  "phaseOf (step ResetClick demo_listening) = NotStarted
   \<and> question (step ResetClick demo_listening) = None
   \<and> score (step ResetClick demo_listening) = resetScore_value
   \<and> \<not> canAnswer (step ResetClick demo_listening)
   \<and> pending (step ResetClick demo_listening) = [EnableTimer 1 280]
   \<and> lastPlayToken (step ResetClick demo_listening) = 1
   \<and> canAnswer (run [ResetClick, Resume 0 (28 / 100) noSamples] demo_listening)
   \<and> pending (run [ResetClick, ApplyClick ''3'' ''fixed'' 48 (1 / 2) 0] demo_listening)
       = [EnableTimer 1 280, RoundFrame]
   \<and> phaseOf (run [ResetClick, ApplyClick ''3'' ''fixed'' 48 (1 / 2) 0] demo_listening)
       = Listening
   \<and> phaseOf (run [ResetClick, ApplyClick ''3'' ''fixed'' 48 (1 / 2) 0,
                    Resume 0 (28 / 100) noSamples] demo_listening)
       = AwaitingAnswer
   \<and> asked (score (run [ResetClick, ApplyClick ''3'' ''fixed'' 48 (1 / 2) 0,
                         Resume 0 (28 / 100) noSamples,
                         AnswerClick 1 ''2026-01-01T00:00:00.000Z''] demo_listening))
       = 1
   \<and> audio (run [ResetClick, ApplyClick ''3'' ''fixed'' 48 (1 / 2) 0,
                  Resume 0 (28 / 100) noSamples,
                  AnswerClick 1 ''2026-01-01T00:00:00.000Z''] demo_listening)
       = audio demo_listening
           @ [StopUiSounds, StopNotes (8 / 100), StopUiSounds, StopNotes (6 / 100),
              UiSound ''audio/correct1.mp3'']"
  by code_simp

theorem reset_keeps_timer_live_witness:
  "canAnswer (run [ResetClick, Resume 0 (28 / 100) noSamples] demo_listening)
   \<and> \<not> started (run [ResetClick, Resume 0 (28 / 100) noSamples] demo_listening)"
proof -
  have "\<not> started (run [ResetClick, Resume 0 (28 / 100) noSamples] demo_listening)"
    by code_simp
  with reset_keeps_timer_live show ?thesis by blast
qed

section \<open>Answers outside the active set\<close>

lemma pickQuestion_Some_active:
  assumes "pickQuestion_int s r1 r2 = Inr (Some q)"
  shows "interval q \<in> set (activeIntervals s)"
proof -
  let ?list = "activeIntervals s"
  let ?i = "\<lfloor>r1 * real (length ?list)\<rfloor>"
  have rng: "0 \<le> ?i \<and> ?i < int (length ?list)"
    using assms by (auto simp: pickQuestion_int_def Let_def split: if_splits)
  then have "nat ?i < length ?list" by linarith
  then have "?list ! nat ?i \<in> set ?list" by (rule nth_mem)
  moreover have "interval q = ?list ! nat ?i"
    using assms rng by (auto simp: pickQuestion_int_def Let_def split: if_splits)
  ultimately show ?thesis by simp
qed

lemma step_countOk: "countOk g \<Longrightarrow> countOk (step e g)"
proof (rule step_invariant [where P = countOk], goal_cases)
  case (2 cv mv rv r1 r2 h)
  show ?case
    using clampInt_bounds [of 2 12 "JStr cv"]
    by (simp add: countOk_def applySettingsAndRestart_def Let_def length_IVL_ALL resetScore_def)
qed (simp_all add: countOk_def startNewRound_frame_def)

lemma questionActive_iff:
  "questionActive g
     \<longleftrightarrow> (\<forall>q. question g = Some q \<longrightarrow> interval q \<in> set (activeIntervals (settings g)))"
  by (simp add: questionActive_def split: option.splits)

lemma startNewRound_questionActive:
  "questionActive g \<or> question g = None \<Longrightarrow> questionActive (snd (startNewRound ap r1 r2 g))"
  by (auto simp: questionActive_iff startNewRound_def Let_def
      split: sum.splits dest: pickQuestion_Some_active)

lemma step_questionActive: "questionActive g \<Longrightarrow> questionActive (step e g)"
proof (rule step_invariant [where P = questionActive], goal_cases)
  case (2 cv mv rv r1 r2 h)
  show ?case
    unfolding applySettingsAndRestart_def Let_def
    by (rule startNewRound_questionActive) simp
next
  case (3 h)
  show ?case by (simp add: questionActive_iff resetBtn_click_result)
next
  case (5 r1 r2 h)
  then show ?case by (simp add: nextBtn_click_def startNewRound_questionActive)
qed (simp_all add: questionActive_iff startNewRound_frame_def)

lemma reachable_countOk: "countOk (run es (init_game wa))"
proof (rule run_invariant [where P = countOk])
  show "countOk (init_game wa)" by (simp add: countOk_def init_game_def)
next
  fix e h
  assume "countOk h"
  then show "countOk (step e h)" by (rule step_countOk)
qed

lemma reachable_questionActive: "questionActive (run es (init_game wa))"
proof (rule run_invariant [where P = questionActive])
  show "questionActive (init_game wa)" by (simp add: questionActive_def init_game_def)
next
  fix e h
  assume "questionActive h"
  then show "questionActive (step e h)" by (rule step_questionActive)
qed

lemma distinct_codes: "distinct (map code IVL_ALL)"
  by (simp add: IVL_ALL_def mk_interval_def)

lemma code_outside_active:
  assumes "x \<in> set (take n IVL_ALL)" "n \<le> i" "i < length IVL_ALL"
  shows "code (IVL_ALL ! i) \<noteq> code x"
proof
  assume eq: "code (IVL_ALL ! i) = code x"
  from assms(1) obtain j where j: "j < n" "j < length IVL_ALL" "x = IVL_ALL ! j"
    by (auto simp: in_set_conv_nth)
  have "map code IVL_ALL ! i = map code IVL_ALL ! j" using eq assms(3) j by simp
  then have "i = j"
    using nth_eq_iff_index_eq [OF distinct_codes, of i j] assms(3) j(2) by simp
  with j(1) assms(2) show False by simp
qed

text \<open>
  C10. In a state the script can reach, with answering enabled, \<open>onAnswer\<close> accepts every
  catalog index \<open>j < 12\<close>: it does not throw and records one event. The settings hold a
  count \<open>n\<close> from 2 to 12, the active intervals are the first \<open>n\<close> of the catalog and the
  interval of the question is one of them. So a guess \<open>i\<close> with \<open>n \<le> i < 12\<close>, whose
  button is hidden, is recorded with its own code as incorrect: \<open>incorrect\<close> grows by 1,
  \<open>correct\<close> stays, the streak falls to 0 and the round is Locked.
\<close>

theorem hidden_answer_incorrect:
  assumes "started (run es (init_game wa))"
    and "question (run es (init_game wa)) = Some q"
    and "canAnswer (run es (init_game wa))"
    and "\<not> awaitingNext (run es (init_game wa))"
  shows "(\<forall>j < length IVL_ALL.
            fst (onAnswer j ts (run es (init_game wa))) = None
          \<and> length (history (score (snd (onAnswer j ts (run es (init_game wa))))))
              = length (history (score (run es (init_game wa)))) + 1)
       \<and> (\<exists>n. intervalCount (settings (run es (init_game wa))) = JNum n \<and> 2 \<le> n \<and> n \<le> 12
            \<and> activeIntervals (settings (run es (init_game wa))) = take (nat n) IVL_ALL
            \<and> interval q \<in> set (take (nat n) IVL_ALL)
            \<and> (\<forall>i. nat n \<le> i \<and> i < length IVL_ALL \<longrightarrow>
                  (let g' = snd (onAnswer i ts (run es (init_game wa)))
                   in (\<exists>ev. history (score g') = history (score (run es (init_game wa))) @ [ev]
                          \<and> \<not> ev_correct ev \<and> ev_guess ev = code (IVL_ALL ! i)
                          \<and> ev_interval ev = code (interval q))
                    \<and> asked (score g') = asked (score (run es (init_game wa))) + 1
                    \<and> incorrect (score g') = incorrect (score (run es (init_game wa))) + 1
                    \<and> correct (score g') = correct (score (run es (init_game wa)))
                    \<and> streak (score g') = 0
                    \<and> phaseOf g' = Locked)))"
proof -
  let ?g = "run es (init_game wa)"
  have acc: "\<forall>j < length IVL_ALL.
            fst (onAnswer j ts ?g) = None
          \<and> length (history (score (snd (onAnswer j ts ?g)))) = length (history (score ?g)) + 1"
    using assms by (simp add: onAnswer_accepted)
  from reachable_countOk [of es wa] obtain n
    where n: "intervalCount (settings ?g) = JNum n" "2 \<le> n" "n \<le> 12"
    by (auto simp: countOk_def split: jsval.splits)
  have act: "activeIntervals (settings ?g) = take (nat n) IVL_ALL"
  proof -
    have "\<bar>n\<bar> < 10 ^ 21" using n by simp
    then have "clampInt (JNum n) 2 12 = n"
      using n by (simp add: clampInt_JNum small_isFiniteNumber)
    then show ?thesis using n by (simp add: activeIntervals_take)
  qed
  have mem: "interval q \<in> set (take (nat n) IVL_ALL)"
    using reachable_questionActive [of es wa] assms(2) act by (simp add: questionActive_iff)
  have hid: "\<forall>i. nat n \<le> i \<and> i < length IVL_ALL \<longrightarrow>
                  (let g' = snd (onAnswer i ts ?g)
                   in (\<exists>ev. history (score g') = history (score ?g) @ [ev]
                          \<and> \<not> ev_correct ev \<and> ev_guess ev = code (IVL_ALL ! i)
                          \<and> ev_interval ev = code (interval q))
                    \<and> asked (score g') = asked (score ?g) + 1
                    \<and> incorrect (score g') = incorrect (score ?g) + 1
                    \<and> correct (score g') = correct (score ?g)
                    \<and> streak (score g') = 0
                    \<and> phaseOf g' = Locked)"
  proof (intro allI impI)
    fix i
    assume i: "nat n \<le> i \<and> i < length IVL_ALL"
    then have ne: "code (IVL_ALL ! i) \<noteq> code (interval q)"
      using code_outside_active [OF mem] by blast
    show "(let g' = snd (onAnswer i ts ?g)
                   in (\<exists>ev. history (score g') = history (score ?g) @ [ev]
                          \<and> \<not> ev_correct ev \<and> ev_guess ev = code (IVL_ALL ! i)
                          \<and> ev_interval ev = code (interval q))
                    \<and> asked (score g') = asked (score ?g) + 1
                    \<and> incorrect (score g') = incorrect (score ?g) + 1
                    \<and> correct (score g') = correct (score ?g)
                    \<and> streak (score g') = 0
                    \<and> phaseOf g' = Locked)"
      using assms i ne by (simp add: onAnswer_accepted Let_def phaseOf_def)
  qed
  from acc n act mem hid show ?thesis by blast
qed

theorem hidden_answer_incorrect_witness:
  "started (run demo_first_round (init_game True))
   \<and> question (run demo_first_round (init_game True))
       = Some \<lparr>rootPitch = 48, highPitch = 50, interval = mk_interval ''M2'' ''major second'' 2\<rparr>
   \<and> canAnswer (run demo_first_round (init_game True))
   \<and> \<not> awaitingNext (run demo_first_round (init_game True))
   \<and> intervalCount (settings (run demo_first_round (init_game True))) = JNum 3
   \<and> fst (onAnswer 7 ''2026-01-01T00:00:00.000Z'' (run demo_first_round (init_game True))) = None
   \<and> map ev_guess (history (score (snd (onAnswer 7 ''2026-01-01T00:00:00.000Z''
        (run demo_first_round (init_game True)))))) = [''m6'']
   \<and> incorrect (score (snd (onAnswer 7 ''2026-01-01T00:00:00.000Z''
        (run demo_first_round (init_game True))))) = 1
   \<and> streak (score (snd (onAnswer 7 ''2026-01-01T00:00:00.000Z''
        (run demo_first_round (init_game True))))) = 0"
proof -
  let ?g = "run demo_first_round (init_game True)"
  let ?ts = "''2026-01-01T00:00:00.000Z''"
  let ?q = "\<lparr>rootPitch = 48, highPitch = 50,
             interval = mk_interval ''M2'' ''major second'' 2\<rparr> :: int question"
  have a: "started ?g" "question ?g = Some ?q" "canAnswer ?g" "\<not> awaitingNext ?g"
    by code_simp+
  have c: "intervalCount (settings ?g) = JNum 3" by code_simp
  have l: "(7::nat) < length IVL_ALL" by code_simp
  have h: "map ev_guess (history (score (snd (onAnswer 7 ?ts ?g)))) = [''m6'']" by code_simp
  have z: "incorrect (score ?g) = 0" by code_simp
  note T = hidden_answer_incorrect [OF a, of ?ts, unfolded Let_def]
  from T l have f: "fst (onAnswer 7 ?ts ?g) = None" by blast
  from T obtain n where n: "intervalCount (settings ?g) = JNum n"
    and hid: "\<forall>i. nat n \<le> i \<and> i < length IVL_ALL \<longrightarrow>
        incorrect (score (snd (onAnswer i ?ts ?g))) = incorrect (score ?g) + 1
        \<and> streak (score (snd (onAnswer i ?ts ?g))) = 0"
    by blast
  from n c have "n = 3" by simp
  with hid l have "incorrect (score (snd (onAnswer 7 ?ts ?g))) = incorrect (score ?g) + 1
        \<and> streak (score (snd (onAnswer 7 ?ts ?g))) = 0" by simp
  with z have r: "incorrect (score (snd (onAnswer 7 ?ts ?g))) = 1"
    "streak (score (snd (onAnswer 7 ?ts ?g))) = 0" by simp_all
  from a c f h r show ?thesis by blast
qed

section \<open>The warning about missing samples\<close>

lemma noteUrl_nonempty: "noteUrl stem oct \<noteq> []"
  by (simp add: noteUrl_def AUDIO_DIR_def)

lemma loaded_missing_truthy:
  "truthy (missingUrl (fst (loadPitchBuffer_done f (loadPitchBuffer_url p) g)))
     \<longleftrightarrow> buffer (fst (loadPitchBuffer_done f (loadPitchBuffer_url p) g)) = None"
  by (simp add: loadPitchBuffer_done_def loadPitchBuffer_url_def truthy_def split_beta
      noteUrl_nonempty split: option.splits)

lemma playCurrentInterval_loaded_warnings:
  "warnings (snd (playCurrentInterval_loaded tok al t0 r1 r2 now f g))
     = (let a1 = fst (loadPitchBuffer_done f r1 g);
            a2 = fst (loadPitchBuffer_done f r2 (snd (loadPitchBuffer_done f r1 g)))
        in if synthFallbackWarned g then warnings g
           else if truthy (missingUrl a1) then warnings g @ [the (missingUrl a1)]
           else if truthy (missingUrl a2) then warnings g @ [the (missingUrl a2)]
           else warnings g)"
  "synthFallbackWarned (snd (playCurrentInterval_loaded tok al t0 r1 r2 now f g))
     = (let a1 = fst (loadPitchBuffer_done f r1 g);
            a2 = fst (loadPitchBuffer_done f r2 (snd (loadPitchBuffer_done f r1 g)))
        in synthFallbackWarned g \<or> truthy (missingUrl a1) \<or> truthy (missingUrl a2))"
  by (simp_all add: playCurrentInterval_loaded_def Let_def split_beta
      maybeWarnSynthFallback_def split: option.splits prod.splits)

lemma step_warned_once:
  assumes "if synthFallbackWarned g then length (warnings g) = 1 else warnings g = []"
  shows "if synthFallbackWarned (step e g) then length (warnings (step e g)) = 1
         else warnings (step e g) = []"
  using assms
proof (rule step_invariant [where P = "\<lambda>h. if synthFallbackWarned h
         then length (warnings h) = 1 else warnings h = []"], goal_cases)
  case (9 tok al t0 r1 r2 now f h)
  then show ?case
    by (simp add: playCurrentInterval_loaded_warnings Let_def split: if_splits)
qed (simp_all add: startNewRound_frame_def)

lemma step_warned_stays:
  assumes "synthFallbackWarned g \<and> warnings g = w"
  shows "synthFallbackWarned (step e g) \<and> warnings (step e g) = w"
  using assms
proof (rule step_invariant [where P = "\<lambda>h. synthFallbackWarned h \<and> warnings h = w"],
    goal_cases)
  case (9 tok al t0 r1 r2 now f h)
  then show ?case by (simp add: playCurrentInterval_loaded_warnings Let_def)
qed (simp_all add: startNewRound_frame_def)

lemma reachable_warnings: "length (warnings (run es (init_game wa))) \<le> 1"
proof -
  have "if synthFallbackWarned (run es (init_game wa))
        then length (warnings (run es (init_game wa))) = 1
        else warnings (run es (init_game wa)) = []"
  proof (rule run_invariant [where P = "\<lambda>h. if synthFallbackWarned h
         then length (warnings h) = 1 else warnings h = []"])
    show "if synthFallbackWarned (init_game wa) then length (warnings (init_game wa)) = 1
          else warnings (init_game wa) = []"
      by (simp add: init_game_def)
  next
    fix e and h :: game
    assume "if synthFallbackWarned h then length (warnings h) = 1 else warnings h = []"
    then show "if synthFallbackWarned (step e h) then length (warnings (step e h)) = 1
               else warnings (step e h) = []"
      by (rule step_warned_once)
  qed
  then show ?thesis by (simp split: if_splits)
qed

lemma warned_stays:
  assumes "synthFallbackWarned g"
  shows "synthFallbackWarned (run fs g) \<and> warnings (run fs g) = warnings g"
proof (rule run_invariant [where P = "\<lambda>h. synthFallbackWarned h \<and> warnings h = warnings g"])
  show "synthFallbackWarned g \<and> warnings g = warnings g" using assms by simp
next
  fix e and h :: game
  assume "synthFallbackWarned h \<and> warnings h = warnings g"
  then show "synthFallbackWarned (step e h) \<and> warnings (step e h) = warnings g"
    by (rule step_warned_stays)
qed

text \<open>
  C9. In every session at most one warning is ever issued. Once \<open>synthFallbackWarned\<close> is
  set, no later event adds one. At a playback (the part of \<open>playCurrentInterval\<close> after the
  loads, for the samples of two pitches) with the flag unset and the sample of either note
  missing, exactly one warning is added, naming the first missing file, also when both are
  missing; with the flag set or both samples loaded, none. The playback goes on either way:
  with the question still there it does not throw and schedules two notes, and the note of
  a missing sample is a synthesized tone.
\<close>

theorem synth_fallback_warning_once:
  "length (warnings (run es (init_game wa))) \<le> 1
   \<and> (synthFallbackWarned g \<longrightarrow>
        synthFallbackWarned (run fs g) \<and> warnings (run fs g) = warnings g)
   \<and> (let r1 = loadPitchBuffer_url p1;
           r2 = loadPitchBuffer_url p2;
           a1 = fst (loadPitchBuffer_done f r1 g);
           a2 = fst (loadPitchBuffer_done f r2 (snd (loadPitchBuffer_done f r1 g)));
           g' = snd (playCurrentInterval_loaded tok al t0 r1 r2 now f g)
       in (\<not> synthFallbackWarned g \<and> (buffer a1 = None \<or> buffer a2 = None) \<longrightarrow>
             warnings g' = warnings g @ [the (missingUrl (if buffer a1 = None then a1 else a2))]
             \<and> synthFallbackWarned g')
        \<and> (synthFallbackWarned g \<longrightarrow> warnings g' = warnings g)
        \<and> (buffer a1 \<noteq> None \<and> buffer a2 \<noteq> None \<longrightarrow> warnings g' = warnings g)
        \<and> (question g = Some q \<longrightarrow>
             fst (playCurrentInterval_loaded tok al t0 r1 r2 now f g) = None
             \<and> audio g' = audio g @ [noteCmd a1 (rootPitch q) t0,
                                     noteCmd a2 (highPitch q) (t0 + NOTE_PLAY_SEC + GAP_SEC)]))
   \<and> (\<forall>a p t. buffer a = None \<longrightarrow>
         noteCmd a p t = SynthNote p t NOTE_PLAY_SEC (8 / 100) (25 / 100))"
proof -
  let ?r1 = "loadPitchBuffer_url p1"
  let ?r2 = "loadPitchBuffer_url p2"
  let ?a1 = "fst (loadPitchBuffer_done f ?r1 g)"
  let ?g1 = "snd (loadPitchBuffer_done f ?r1 g)"
  let ?a2 = "fst (loadPitchBuffer_done f ?r2 ?g1)"
  let ?g' = "snd (playCurrentInterval_loaded tok al t0 ?r1 ?r2 now f g)"
  have t1: "truthy (missingUrl ?a1) \<longleftrightarrow> buffer ?a1 = None" by (rule loaded_missing_truthy)
  have t2: "truthy (missingUrl ?a2) \<longleftrightarrow> buffer ?a2 = None" by (rule loaded_missing_truthy)
  have w: "warnings ?g' = (if synthFallbackWarned g then warnings g
           else if buffer ?a1 = None then warnings g @ [the (missingUrl ?a1)]
           else if buffer ?a2 = None then warnings g @ [the (missingUrl ?a2)]
           else warnings g)"
    by (simp add: playCurrentInterval_loaded_warnings Let_def t1 t2)
  have fl: "synthFallbackWarned ?g'
         = (synthFallbackWarned g \<or> buffer ?a1 = None \<or> buffer ?a2 = None)"
    by (simp add: playCurrentInterval_loaded_warnings Let_def t1 t2)
  have a: "\<not> synthFallbackWarned g \<and> (buffer ?a1 = None \<or> buffer ?a2 = None) \<longrightarrow>
             warnings ?g' = warnings g @ [the (missingUrl (if buffer ?a1 = None then ?a1 else ?a2))]
             \<and> synthFallbackWarned ?g'"
    using w fl by simp
  have b: "synthFallbackWarned g \<longrightarrow> warnings ?g' = warnings g" using w by simp
  have c: "buffer ?a1 \<noteq> None \<and> buffer ?a2 \<noteq> None \<longrightarrow> warnings ?g' = warnings g"
    using w by simp
  have d: "question g = Some q \<longrightarrow>
             fst (playCurrentInterval_loaded tok al t0 ?r1 ?r2 now f g) = None
             \<and> audio ?g' = audio g @ [noteCmd ?a1 (rootPitch q) t0,
                                     noteCmd ?a2 (highPitch q) (t0 + NOTE_PLAY_SEC + GAP_SEC)]"
    using playCurrentInterval_loaded_result [of g q tok al t0 ?r1 ?r2 now f] by simp
  have e: "\<forall>a p t. buffer a = None \<longrightarrow>
         noteCmd a p t = SynthNote p t NOTE_PLAY_SEC (8 / 100) (25 / 100)"
    by (simp add: noteCmd_def)
  have s: "synthFallbackWarned g \<longrightarrow>
        synthFallbackWarned (run fs g) \<and> warnings (run fs g) = warnings g"
    using warned_stays by blast
  show ?thesis
    unfolding Let_def using reachable_warnings [of es wa] s a b c d e by blast
qed

theorem synth_fallback_warning_once_witness:
  "length (warnings (run demo_four_rounds (init_game True))) \<le> 1
   \<and> warnings (run demo_four_rounds (init_game True)) = [''audio/c4.mp3'']
   \<and> \<not> synthFallbackWarned demo_begun
   \<and> buffer (fst (loadPitchBuffer_done noSamples (loadPitchBuffer_url 48) demo_begun)) = None
   \<and> warnings (snd (playCurrentInterval_loaded 1 True (28 / 100) (loadPitchBuffer_url 48)
                      (loadPitchBuffer_url 50) 0 noSamples demo_begun))
       = [''audio/c4.mp3'']
   \<and> audio (snd (playCurrentInterval_loaded 1 True (28 / 100) (loadPitchBuffer_url 48)
                   (loadPitchBuffer_url 50) 0 noSamples demo_begun))
       = [SynthNote 48 (28 / 100) (115 / 100) (8 / 100) (25 / 100),
          SynthNote 50 (161 / 100) (115 / 100) (8 / 100) (25 / 100)]
   \<and> synthFallbackWarned demo_locked
   \<and> warnings (run [ReplayClick, Resume 0 2 noSamples, Resume 0 2 noSamples] demo_locked)
       = [''audio/c4.mp3'']"
proof -
  let ?q = "\<lparr>rootPitch = 48, highPitch = 50,
             interval = mk_interval ''M2'' ''major second'' 2\<rparr> :: int question"
  let ?r1 = "loadPitchBuffer_url 48"
  let ?r2 = "loadPitchBuffer_url 50"
  let ?a1 = "fst (loadPitchBuffer_done noSamples ?r1 demo_begun)"
  let ?a2 = "fst (loadPitchBuffer_done noSamples ?r2 (snd (loadPitchBuffer_done noSamples ?r1 demo_begun)))"
  let ?g' = "snd (playCurrentInterval_loaded 1 True (28 / 100) ?r1 ?r2 0 noSamples demo_begun)"
  let ?fs = "[ReplayClick, Resume 0 2 noSamples, Resume 0 2 noSamples]"
  have v: "warnings (run demo_four_rounds (init_game True)) = [''audio/c4.mp3'']" by code_simp
  have n: "\<not> synthFallbackWarned demo_begun" "buffer ?a1 = None" "question demo_begun = Some ?q"
    by code_simp+
  have y: "synthFallbackWarned demo_locked" "warnings demo_locked = [''audio/c4.mp3'']"
    by code_simp+
  have x: "warnings demo_begun @ [the (missingUrl (if buffer ?a1 = None then ?a1 else ?a2))]
        = [''audio/c4.mp3'']"
    by code_simp
  have z: "audio demo_begun @ [noteCmd ?a1 (rootPitch ?q) (28 / 100),
            noteCmd ?a2 (highPitch ?q) (28 / 100 + NOTE_PLAY_SEC + GAP_SEC)]
        = [SynthNote 48 (28 / 100) (115 / 100) (8 / 100) (25 / 100),
           SynthNote 50 (161 / 100) (115 / 100) (8 / 100) (25 / 100)]"
    by code_simp
  note T = synth_fallback_warning_once [of demo_four_rounds True demo_begun "[]" 48 50 noSamples
      1 True "28 / 100" 0 ?q, unfolded Let_def]
  note U = synth_fallback_warning_once [of demo_four_rounds True demo_locked ?fs 48 50 noSamples
      1 True "28 / 100" 0 ?q, unfolded Let_def]
  from T have l: "length (warnings (run demo_four_rounds (init_game True))) \<le> 1" by blast
  from T n have "warnings ?g'
      = warnings demo_begun @ [the (missingUrl (if buffer ?a1 = None then ?a1 else ?a2))]"
    by blast
  with x have w: "warnings ?g' = [''audio/c4.mp3'']" by simp
  from T n have "audio ?g' = audio demo_begun @ [noteCmd ?a1 (rootPitch ?q) (28 / 100),
            noteCmd ?a2 (highPitch ?q) (28 / 100 + NOTE_PLAY_SEC + GAP_SEC)]"
    by blast
  with z have au: "audio ?g' = [SynthNote 48 (28 / 100) (115 / 100) (8 / 100) (25 / 100),
           SynthNote 50 (161 / 100) (115 / 100) (8 / 100) (25 / 100)]" by simp
  from U y have "warnings (run ?fs demo_locked) = warnings demo_locked" by blast
  with y have k: "warnings (run ?fs demo_locked) = [''audio/c4.mp3'']" by simp
  from l v n(1,2) w au y(1) k show ?thesis by blast
qed

section \<open>Replay\<close>

lemma replayBtn_click_noop:
  "\<not> started g \<or> question g = None \<Longrightarrow> replayBtn_click g = g"
  by (auto simp: replayBtn_click_def)

lemma replayBtn_click_locked:
  assumes "started g" "question g = Some q" "awaitingNext g"
  shows "replayBtn_click g
    = g\<lparr>lastPlayToken := lastPlayToken g + 1, canAnswer := False,
        audio := audio (stopAllAudio (8 / 100) g),
        pending := pending g @ [PlayResume (lastPlayToken g + 1) False 0]\<rparr>"
  using assms
  by (simp add: replayBtn_click_def playCurrentInterval_def Let_def stopAllAudio_def
      stopAllNotes_def stopUiSounds_def emit_def)

lemma resume_last:
  "step (Resume (length (pending g)) now f) (g\<lparr>pending := pending g @ [t]\<rparr>)
     = run_task t now f g"
  by simp

lemma playCurrentInterval_loaded_no_timer:
  "pending (snd (playCurrentInterval_loaded tok False t0 r1 r2 now f h)) = pending h"
  by (simp add: playCurrentInterval_loaded_def Let_def split_beta playNote_def emit_def
      maybeWarnSynthFallback_def split: option.splits prod.splits)

text \<open>
  C8. The replay button does nothing when the game has not started or there is no question.
  When the round is Locked (\<open>awaitingNext\<close> true) it calls \<open>playCurrentInterval\<close> with
  \<open>allowAnswerAfter = false\<close>: a new token is taken, \<open>canAnswer\<close> stays false and
  \<open>awaitingNext\<close> true. When the two waiting parts of that call have run (the browser
  having Web Audio), the two notes of the current question are scheduled, at
  \<open>t0 = ctx.currentTime + 0.03\<close> and \<open>t0 + NOTE_PLAY_SEC + GAP_SEC\<close>, no timer has been
  armed (the waiting tasks are those from before the click), the round is still Locked, and
  no enable-answers callback, whatever its token, changes the state. A playback with
  \<open>allowAnswerAfter = false\<close> never arms a timer.
\<close>

theorem replay_when_locked:
  "(\<not> started g \<or> question g = None \<longrightarrow> replayBtn_click g = g)
   \<and> (\<forall>tok t0 r1 r2 now f h.
         pending (snd (playCurrentInterval_loaded tok False t0 r1 r2 now f h)) = pending h)
   \<and> (started g \<and> question g = Some q \<and> awaitingNext g \<and> webAudio g \<longrightarrow>
        (let k = length (pending g);
             g1 = replayBtn_click g;
             g2 = step (Resume k now1 f1) g1;
             g3 = step (Resume k now2 f2) g2;
             t0 = now1 + 3 / 100
         in lastPlayToken g1 = lastPlayToken g + 1
          \<and> \<not> canAnswer g1 \<and> awaitingNext g1
          \<and> pending g1 = pending g @ [PlayResume (lastPlayToken g + 1) False 0]
          \<and> pending g2 = pending g @
               [PlayLoad (lastPlayToken g + 1) False t0 (loadPitchBuffer_url (rootPitch q))
                  (loadPitchBuffer_url (highPitch q))]
          \<and> pending g3 = pending g
          \<and> (\<exists>a1 a2. audio g3 = audio g @
                [StopUiSounds, StopNotes (8 / 100), noteCmd a1 (rootPitch q) t0,
                 noteCmd a2 (highPitch q) (t0 + NOTE_PLAY_SEC + GAP_SEC)])
          \<and> \<not> canAnswer g3 \<and> awaitingNext g3 \<and> phaseOf g3 = Locked
          \<and> question g3 = Some q \<and> score g3 = score g
          \<and> (\<forall>tok. enableAnswers tok g3 = g3)))"
proof -
  have a: "\<not> started g \<or> question g = None \<longrightarrow> replayBtn_click g = g"
    using replayBtn_click_noop by blast
  have b: "\<forall>tok t0 r1 r2 now f h.
         pending (snd (playCurrentInterval_loaded tok False t0 r1 r2 now f h)) = pending h"
    by (simp add: playCurrentInterval_loaded_no_timer)
  have c: "started g \<and> question g = Some q \<and> awaitingNext g \<and> webAudio g \<longrightarrow>
        (let k = length (pending g);
             g1 = replayBtn_click g;
             g2 = step (Resume k now1 f1) g1;
             g3 = step (Resume k now2 f2) g2;
             t0 = now1 + 3 / 100
         in lastPlayToken g1 = lastPlayToken g + 1
          \<and> \<not> canAnswer g1 \<and> awaitingNext g1
          \<and> pending g1 = pending g @ [PlayResume (lastPlayToken g + 1) False 0]
          \<and> pending g2 = pending g @
               [PlayLoad (lastPlayToken g + 1) False t0 (loadPitchBuffer_url (rootPitch q))
                  (loadPitchBuffer_url (highPitch q))]
          \<and> pending g3 = pending g
          \<and> (\<exists>a1 a2. audio g3 = audio g @
                [StopUiSounds, StopNotes (8 / 100), noteCmd a1 (rootPitch q) t0,
                 noteCmd a2 (highPitch q) (t0 + NOTE_PLAY_SEC + GAP_SEC)])
          \<and> \<not> canAnswer g3 \<and> awaitingNext g3 \<and> phaseOf g3 = Locked
          \<and> question g3 = Some q \<and> score g3 = score g
          \<and> (\<forall>tok. enableAnswers tok g3 = g3))"
  proof
    assume h: "started g \<and> question g = Some q \<and> awaitingNext g \<and> webAudio g"
    define tok where "tok = lastPlayToken g + 1"
    define x where "x = g\<lparr>lastPlayToken := tok, canAnswer := False,
        audio := audio g @ [StopUiSounds, StopNotes (8 / 100)]\<rparr>"
    define t0 where "t0 = now1 + 3 / 100"
    define r1 where "r1 = loadPitchBuffer_url (rootPitch q)"
    define r2 where "r2 = loadPitchBuffer_url (highPitch q)"
    define g3 where "g3 = snd (playCurrentInterval_loaded tok False t0 r1 r2 now2 f2 x)"
    have x: "pending x = pending g" "question x = Some q" "webAudio x" "started x"
      "awaitingNext x" "\<not> canAnswer x" "score x = score g" "lastPlayToken x = tok"
      "audio x = audio g @ [StopUiSounds, StopNotes (8 / 100)]"
      using h by (simp_all add: x_def)
    have g1: "replayBtn_click g = x\<lparr>pending := pending g @ [PlayResume tok False 0]\<rparr>"
      using h
      by (simp add: replayBtn_click_locked [of g q] x_def tok_def stopAllAudio_def
          stopAllNotes_def stopUiSounds_def emit_def)
    have "run_task (PlayResume tok False 0) now1 f1 x
        = x\<lparr>pending := pending g @ [PlayLoad tok False t0 r1 r2]\<rparr>"
      by (simp add: playCurrentInterval_resumed_def Let_def x t0_def r1_def r2_def)
    then have g2: "step (Resume (length (pending g)) now1 f1) (replayBtn_click g)
        = x\<lparr>pending := pending g @ [PlayLoad tok False t0 r1 r2]\<rparr>"
      unfolding g1 using resume_last [of x now1 f1 "PlayResume tok False 0", unfolded x(1)]
      by simp
    have "run_task (PlayLoad tok False t0 r1 r2) now2 f2 x = g3"
      by (simp add: g3_def)
    then have g3: "step (Resume (length (pending g)) now2 f2)
                (step (Resume (length (pending g)) now1 f1) (replayBtn_click g)) = g3"
      unfolding g2 using resume_last [of x now2 f2 "PlayLoad tok False t0 r1 r2", unfolded x(1)]
      by simp
    have p3: "pending g3 = pending g"
      by (simp add: g3_def playCurrentInterval_loaded_no_timer x)
    have a3: "audio g3 = audio g @
                [StopUiSounds, StopNotes (8 / 100),
                 noteCmd (fst (loadPitchBuffer_done f2 r1 x)) (rootPitch q) t0,
                 noteCmd (fst (loadPitchBuffer_done f2 r2 (snd (loadPitchBuffer_done f2 r1 x))))
                   (highPitch q) (t0 + NOTE_PLAY_SEC + GAP_SEC)]"
      using playCurrentInterval_loaded_result(3) [OF x(2), of tok False t0 r1 r2 now2 f2]
      by (simp add: g3_def x)
    have k3: "\<not> canAnswer g3" "awaitingNext g3" "started g3" "question g3 = Some q"
      "score g3 = score g"
      by (simp_all add: g3_def x)
    have ph: "phaseOf g3 = Locked" using k3 by (simp add: phaseOf_def)
    have en: "\<forall>tok'. enableAnswers tok' g3 = g3" using k3 by (simp add: enableAnswers_def)
    have k1: "lastPlayToken (replayBtn_click g) = lastPlayToken g + 1"
      "\<not> canAnswer (replayBtn_click g)" "awaitingNext (replayBtn_click g)"
      "pending (replayBtn_click g) = pending g @ [PlayResume (lastPlayToken g + 1) False 0]"
      unfolding g1 by (simp_all add: x tok_def)
    have k2: "pending (step (Resume (length (pending g)) now1 f1) (replayBtn_click g))
        = pending g @ [PlayLoad (lastPlayToken g + 1) False t0 r1 r2]"
      unfolding g2 by (simp add: x tok_def)
    show "(let k = length (pending g);
             g1 = replayBtn_click g;
             g2 = step (Resume k now1 f1) g1;
             g3 = step (Resume k now2 f2) g2;
             t0 = now1 + 3 / 100
         in lastPlayToken g1 = lastPlayToken g + 1
          \<and> \<not> canAnswer g1 \<and> awaitingNext g1
          \<and> pending g1 = pending g @ [PlayResume (lastPlayToken g + 1) False 0]
          \<and> pending g2 = pending g @
               [PlayLoad (lastPlayToken g + 1) False t0 (loadPitchBuffer_url (rootPitch q))
                  (loadPitchBuffer_url (highPitch q))]
          \<and> pending g3 = pending g
          \<and> (\<exists>a1 a2. audio g3 = audio g @
                [StopUiSounds, StopNotes (8 / 100), noteCmd a1 (rootPitch q) t0,
                 noteCmd a2 (highPitch q) (t0 + NOTE_PLAY_SEC + GAP_SEC)])
          \<and> \<not> canAnswer g3 \<and> awaitingNext g3 \<and> phaseOf g3 = Locked
          \<and> question g3 = Some q \<and> score g3 = score g
          \<and> (\<forall>tok. enableAnswers tok g3 = g3))"
      unfolding Let_def g3
      using k1 k2 p3 a3 k3 ph en
      unfolding t0_def r1_def r2_def by blast
  qed
  from a b c show ?thesis by blast
qed

theorem replay_when_locked_witness:
  "replayBtn_click (init_game True) = init_game True
   \<and> started demo_locked \<and> awaitingNext demo_locked \<and> webAudio demo_locked
   \<and> pending demo_locked = []
   \<and> pending (run [ReplayClick, Resume 0 2 noSamples, Resume 0 2 noSamples] demo_locked) = []
   \<and> audio (run [ReplayClick, Resume 0 2 noSamples, Resume 0 2 noSamples] demo_locked)
       = audio demo_locked @
          [StopUiSounds, StopNotes (8 / 100),
           SynthNote 48 (203 / 100) (115 / 100) (8 / 100) (25 / 100),
           SynthNote 50 (336 / 100) (115 / 100) (8 / 100) (25 / 100)]
   \<and> \<not> canAnswer (run [ReplayClick, Resume 0 2 noSamples, Resume 0 2 noSamples] demo_locked)
   \<and> phaseOf (run [ReplayClick, Resume 0 2 noSamples, Resume 0 2 noSamples] demo_locked)
       = Locked"
proof -
  let ?q = "\<lparr>rootPitch = 48, highPitch = 50,
             interval = mk_interval ''M2'' ''major second'' 2\<rparr> :: int question"
  let ?g1 = "replayBtn_click demo_locked"
  let ?g2 = "step (Resume (length (pending demo_locked)) 2 noSamples) ?g1"
  let ?g3 = "step (Resume (length (pending demo_locked)) 2 noSamples) ?g2"
  have n: "\<not> started (init_game True)" by code_simp
  have a: "started demo_locked" "question demo_locked = Some ?q" "awaitingNext demo_locked"
    "webAudio demo_locked" "pending demo_locked = []"
    by code_simp+
  have r: "run [ReplayClick, Resume 0 2 noSamples, Resume 0 2 noSamples] demo_locked = ?g3"
    by (simp add: a(5))
  have au: "audio (run [ReplayClick, Resume 0 2 noSamples, Resume 0 2 noSamples] demo_locked)
       = audio demo_locked @
          [StopUiSounds, StopNotes (8 / 100),
           SynthNote 48 (203 / 100) (115 / 100) (8 / 100) (25 / 100),
           SynthNote 50 (336 / 100) (115 / 100) (8 / 100) (25 / 100)]"
    by code_simp
  from replay_when_locked [of "init_game True" ?q 2 noSamples 2 noSamples] n
  have i: "replayBtn_click (init_game True) = init_game True" by blast
  note T = replay_when_locked [of demo_locked ?q 2 noSamples 2 noSamples, unfolded Let_def]
  from T a have "pending ?g3 = pending demo_locked" by blast
  with a(5) have p: "pending ?g3 = []" by simp
  from T a have c: "\<not> canAnswer ?g3" "phaseOf ?g3 = Locked" by blast+
  from i a(1,3,4,5) p c au show ?thesis unfolding r by blast
qed


end
